theory Spec2Isabelle
  imports Main "HOL-Library.AList"
begin

section \<open>Values, column specifications and the store\<close>

text \<open>
  The library (react-native-sqlite-table) manages one table of an SQLite file. The model
  has three layers: the values and specifications of \<^verbatim>\<open>types.ts\<close>, a small store that
  interprets the statements the library itself issues, and the library's functions,
  translated one by one. The SQLite engine and the driver are not part of the repository;
  the statements that the caller supplies (the batches of a DDL plan, the statements of a
  migration step) are run by a parameter, the \<open>driver\<close>.
\<close>

datatype ColumnType = TEXT | INTEGER | REAL | BOOLEAN | BLOB

text \<open>
  A JavaScript value as the row and default fields hold it. \<open>JNum\<close> carries an integral
  number or, as \<open>None\<close>, any number that is not an integer (a fraction, NaN, an infinity).
  \<open>JObj\<close> carries the JSON text of an object. The text of a value is a JavaScript string,
  a sequence of UTF-16 code units (\<open>jsstring\<close>); the names of tables and columns are
  written as \<open>string\<close>.
\<close>

type_synonym jsstring = "nat list"

datatype jsval = JUndefined | JNull | JStr jsstring | JNum "int option" | JBool bool | JObj jsstring

datatype sqlval = SNull | SInt int | SText jsstring

datatype error =
    CannotBeNull string
  | MustBeString string
  | CannotBeEmptyString string
  | MustBeInteger string
  | OutOfSafeRange string
  | MustBeBoolean string
  | MustBeObject string
  | UnsupportedColumnType
  | UnknownColumn string
  | IllTyped
  | NoDDLOption
  | TableExists string
  | NoSuchTable string
  | NoSuchColumn string
  | DuplicateColumn string
  | NotNullViolated string
  | UniqueViolated string
  | CheckViolated string
  | StatementFailed string

text \<open>\<^verbatim>\<open>ColumnSpecNorm\<close>: \<open>dflt = None\<close> is an absent (\<^verbatim>\<open>undefined\<close>) default.\<close>

record ColumnSpec =
  ctype :: ColumnType
  nullable :: bool
  dflt :: "jsval option"
  unique :: bool
  chk :: "string option"

text \<open>A column of a table on disk, as a \<^verbatim>\<open>CREATE TABLE\<close> statement defines it.\<close>

record pcol =
  pname :: string
  ptype :: string
  pnotnull :: bool
  punique :: bool
  pcheck :: "string option"
  pdefault :: "sqlval option"
  pauto :: bool

type_synonym row = "(string \<times> sqlval) list"

record table =
  tcols :: "pcol list"
  trows :: "row list"

text \<open>
  The store: the tables by name, the rows of the registry table \<^verbatim>\<open>__sp_schema\<close>
  (\<open>None\<close> while that table does not exist; a row is table name, version, updated-at) and
  the names of the indexes. The managed table is taken to have another name than the
  registry table.
\<close>

record db =
  tables :: "(string \<times> table) list"
  reg_table :: "(string \<times> int \<times> int) list option"
  indexes :: "string list"

text \<open>
  A statement. \<open>Raw\<close> is a statement of the caller (\<^verbatim>\<open>Stmt\<close> of \<^verbatim>\<open>types.ts\<close>: the SQL
  text and its parameters); the other constructors are the statements the library builds.
\<close>

datatype Stmt =
    Raw string "sqlval list"
  | PragmaForeignKeys bool
  | CreateTable bool string "pcol list"
  | InsertSelect string "string list" string
  | DropTable string
  | RenameTable string string
  | CreateRegTable
  | CreateRegIndex
  | UpsertVersion string int int
  | InsertValues string "string list" "sqlval list"
  | InsertDefaultValues string

text \<open>
  What the library takes from outside: how a statement of the caller changes the store
  (or fails), whether a \<^verbatim>\<open>CHECK\<close> expression holds of a row, the clock
  (\<^verbatim>\<open>Date.now()\<close>) and the random suffix of \<^verbatim>\<open>rebuildPreserveData\<close>, both read in a
  given state, and the error of \<^verbatim>\<open>openDatabase\<close>, if it fails.
\<close>

record driver =
  exec_raw :: "string \<Rightarrow> sqlval list \<Rightarrow> db \<Rightarrow> error + db"
  check_holds :: "string \<Rightarrow> row \<Rightarrow> bool"
  clock :: "db \<Rightarrow> int"
  random_suffix :: "db \<Rightarrow> string"
  open_database :: "error option"

definition REG_TABLE_NAME :: string where
  "REG_TABLE_NAME = ''__sp_schema''"

definition REG_INDEX_NAME :: string where
  "REG_INDEX_NAME = REG_TABLE_NAME @ ''_ver_idx''"

definition SQLITE_RESERVED_PRIMARY_KEY :: string where
  "SQLITE_RESERVED_PRIMARY_KEY = ''row_id''"

subsection \<open>Strings\<close>

text \<open>\<^verbatim>\<open>toLowerCase\<close> on the names of columns, which are taken to be ASCII.\<close>

definition lower_char :: "char \<Rightarrow> char" where
  "lower_char c =
     (let n = (of_char c :: nat) in if 65 \<le> n \<and> n \<le> 90 then char_of (n + 32) else c)"

definition toLowerCase :: "string \<Rightarrow> string" where
  "toLowerCase s = map lower_char s"

text \<open>The code units of an ASCII literal.\<close>

definition js :: "string \<Rightarrow> jsstring" where
  "js s = map of_char s"



subsection \<open>The store's reading of the library's statements\<close>

text \<open>
  Names are matched as written: the library passes on only names it has read from the
  store or from the declaration. Values are stored as given. A column marked \<open>pauto\<close>
  (\<^verbatim>\<open>INTEGER PRIMARY KEY AUTOINCREMENT\<close>) that an insert leaves out receives one more than
  the largest value the table holds in it.
\<close>

definition col_value :: "row \<Rightarrow> string \<Rightarrow> sqlval" where
  "col_value r c = (case map_of r c of None \<Rightarrow> SNull | Some v \<Rightarrow> v)"

fun rowid_of :: "sqlval \<Rightarrow> int" where
  "rowid_of (SInt n) = n"
| "rowid_of _ = 0"

definition next_rowid :: "table \<Rightarrow> string \<Rightarrow> int" where
  "next_rowid t c = fold max (map (\<lambda>r. rowid_of (col_value r c)) (trows t)) 0 + 1"

definition new_value :: "table \<Rightarrow> (string \<times> sqlval) list \<Rightarrow> pcol \<Rightarrow> sqlval" where
  "new_value t asg c =
     (case map_of asg (pname c) of
        Some v \<Rightarrow> if pauto c \<and> v = SNull then SInt (next_rowid t (pname c)) else v
      | None \<Rightarrow>
          if pauto c then SInt (next_rowid t (pname c))
          else (case pdefault c of Some v \<Rightarrow> v | None \<Rightarrow> SNull))"

definition new_row :: "table \<Rightarrow> (string \<times> sqlval) list \<Rightarrow> row" where
  "new_row t asg = map (\<lambda>c. (pname c, new_value t asg c)) (tcols t)"

fun check_cols :: "driver \<Rightarrow> table \<Rightarrow> row \<Rightarrow> pcol list \<Rightarrow> error option" where
  "check_cols drv t r [] = None"
| "check_cols drv t r (c # cs) =
     (let v = col_value r (pname c) in
      if pnotnull c \<and> v = SNull then Some (NotNullViolated (pname c))
      else if (punique c \<or> pauto c) \<and> v \<noteq> SNull
              \<and> v \<in> set (map (\<lambda>r'. col_value r' (pname c)) (trows t))
        then Some (UniqueViolated (pname c))
      else (case pcheck c of
              None \<Rightarrow> check_cols drv t r cs
            | Some e \<Rightarrow>
                if check_holds drv e r then check_cols drv t r cs
                else Some (CheckViolated e)))"

definition insert_row :: "driver \<Rightarrow> table \<Rightarrow> (string \<times> sqlval) list \<Rightarrow> error + table" where
  "insert_row drv t asg =
     (case filter (\<lambda>c. c \<notin> set (map pname (tcols t))) (map fst asg) of
        c # _ \<Rightarrow> Inl (NoSuchColumn c)
      | [] \<Rightarrow>
          (let r = new_row t asg in
           case check_cols drv t r (tcols t) of
             Some e \<Rightarrow> Inl e
           | None \<Rightarrow> Inr (t\<lparr>trows := trows t @ [r]\<rparr>)))"

fun insert_rows :: "driver \<Rightarrow> table \<Rightarrow> (string \<times> sqlval) list list \<Rightarrow> error + table" where
  "insert_rows drv t [] = Inr t"
| "insert_rows drv t (a # as) =
     (case insert_row drv t a of
        Inl e \<Rightarrow> Inl e
      | Inr t' \<Rightarrow> insert_rows drv t' as)"

definition upsert_version ::
  "string \<Rightarrow> int \<Rightarrow> int \<Rightarrow> (string \<times> int \<times> int) list \<Rightarrow> (string \<times> int \<times> int) list" where
  "upsert_version t v now rs =
     (if t \<in> set (map fst rs)
      then map (\<lambda>(k, old). if k = t then (k, v, now) else (k, old)) rs
      else rs @ [(t, v, now)])"

fun exec_stmt :: "driver \<Rightarrow> Stmt \<Rightarrow> db \<Rightarrow> error + db" where
  "exec_stmt drv (Raw s ps) d = exec_raw drv s ps d"
| "exec_stmt drv (PragmaForeignKeys b) d = Inr d"
| "exec_stmt drv (CreateTable if_not_exists n cs) d =
     (case map_of (tables d) n of
        Some _ \<Rightarrow> if if_not_exists then Inr d else Inl (TableExists n)
      | None \<Rightarrow>
          if \<not> distinct (map (\<lambda>c. toLowerCase (pname c)) cs) then Inl (DuplicateColumn n)
          else Inr (d\<lparr>tables := tables d @ [(n, \<lparr>tcols = cs, trows = []\<rparr>)]\<rparr>))"
| "exec_stmt drv (InsertSelect dst cs src) d =
     (case map_of (tables d) dst of
        None \<Rightarrow> Inl (NoSuchTable dst)
      | Some t \<Rightarrow>
          (case map_of (tables d) src of
             None \<Rightarrow> Inl (NoSuchTable src)
           | Some s \<Rightarrow>
               (case filter (\<lambda>c. c \<notin> set (map pname (tcols s))) cs of
                  c # _ \<Rightarrow> Inl (NoSuchColumn c)
                | [] \<Rightarrow>
                    (case insert_rows drv t
                            (map (\<lambda>r. map (\<lambda>c. (c, col_value r c)) cs) (trows s)) of
                       Inl e \<Rightarrow> Inl e
                     | Inr t' \<Rightarrow> Inr (d\<lparr>tables := AList.update dst t' (tables d)\<rparr>)))))"
| "exec_stmt drv (DropTable n) d =
     (case map_of (tables d) n of
        None \<Rightarrow> Inl (NoSuchTable n)
      | Some _ \<Rightarrow> Inr (d\<lparr>tables := AList.delete n (tables d)\<rparr>))"
| "exec_stmt drv (RenameTable a b) d =
     (case map_of (tables d) a of
        None \<Rightarrow> Inl (NoSuchTable a)
      | Some t \<Rightarrow>
          (case map_of (tables d) b of
             Some _ \<Rightarrow> Inl (TableExists b)
           | None \<Rightarrow> Inr (d\<lparr>tables := AList.delete a (tables d) @ [(b, t)]\<rparr>)))"
| "exec_stmt drv CreateRegTable d =
     (case reg_table d of
        None \<Rightarrow> Inr (d\<lparr>reg_table := Some []\<rparr>)
      | Some _ \<Rightarrow> Inr d)"
| "exec_stmt drv CreateRegIndex d =
     (case reg_table d of
        None \<Rightarrow> Inl (NoSuchTable REG_TABLE_NAME)
      | Some _ \<Rightarrow>
          if REG_INDEX_NAME \<in> set (indexes d) then Inr d
          else Inr (d\<lparr>indexes := indexes d @ [REG_INDEX_NAME]\<rparr>))"
| "exec_stmt drv (UpsertVersion t v now) d =
     (case reg_table d of
        None \<Rightarrow> Inl (NoSuchTable REG_TABLE_NAME)
      | Some rs \<Rightarrow> Inr (d\<lparr>reg_table := Some (upsert_version t v now rs)\<rparr>))"
| "exec_stmt drv (InsertValues n cs vs) d =
     (case map_of (tables d) n of
        None \<Rightarrow> Inl (NoSuchTable n)
      | Some t \<Rightarrow>
          (case insert_row drv t (zip cs vs) of
             Inl e \<Rightarrow> Inl e
           | Inr t' \<Rightarrow> Inr (d\<lparr>tables := AList.update n t' (tables d)\<rparr>)))"
| "exec_stmt drv (InsertDefaultValues n) d =
     (case map_of (tables d) n of
        None \<Rightarrow> Inl (NoSuchTable n)
      | Some t \<Rightarrow>
          (case insert_row drv t [] of
             Inl e \<Rightarrow> Inl e
           | Inr t' \<Rightarrow> Inr (d\<lparr>tables := AList.update n t' (tables d)\<rparr>)))"

fun exec_all :: "driver \<Rightarrow> Stmt list \<Rightarrow> db \<Rightarrow> error + db" where
  "exec_all drv [] d = Inr d"
| "exec_all drv (s # ss) d =
     (case exec_stmt drv s d of
        Inl e \<Rightarrow> Inl e
      | Inr d' \<Rightarrow> exec_all drv ss d')"

text \<open>
  \<^verbatim>\<open>db.transaction\<close>: the statements queued in the callback run in order; the first failure
  rolls everything back and reaches the error callback.
\<close>

definition transaction :: "driver \<Rightarrow> Stmt list \<Rightarrow> db \<Rightarrow> db \<times> error option" where
  "transaction drv ss d =
     (case exec_all drv ss d of
        Inl e \<Rightarrow> (d, Some e)
      | Inr d' \<Rightarrow> (d', None))"

text \<open>Sequencing of two steps, the second skipped when the first has thrown.\<close>

definition and_then ::
  "db \<times> error option \<Rightarrow> (db \<Rightarrow> db \<times> error option) \<Rightarrow> db \<times> error option" where
  "and_then r f = (case r of (d, None) \<Rightarrow> f d | (d, Some e) \<Rightarrow> (d, Some e))"

section \<open>The library\<close>

subsection \<open>\<^verbatim>\<open>utils/sql.ts\<close>\<close>

definition runTxn :: "driver \<Rightarrow> Stmt \<Rightarrow> db \<Rightarrow> db \<times> error option" where
  "runTxn drv s d = transaction drv [s] d"

definition runBatchTxn :: "driver \<Rightarrow> Stmt list \<Rightarrow> db \<Rightarrow> db \<times> error option" where
  "runBatchTxn drv ss d = transaction drv ss d"

definition runNoTxn :: "driver \<Rightarrow> Stmt \<Rightarrow> db \<Rightarrow> db \<times> error option" where
  "runNoTxn drv s d =
     (case exec_stmt drv s d of
        Inl e \<Rightarrow> (d, Some e)
      | Inr d' \<Rightarrow> (d', None))"

fun runBatchNoTxn :: "driver \<Rightarrow> Stmt list \<Rightarrow> db \<Rightarrow> db \<times> error option" where
  "runBatchNoTxn drv [] d = (d, None)"
| "runBatchNoTxn drv (s # ss) d =
     (case runNoTxn drv s d of
        (d', None) \<Rightarrow> runBatchNoTxn drv ss d'
      | (d', Some e) \<Rightarrow> (d', Some e))"

subsection \<open>\<^verbatim>\<open>schema/SchemaRegistry.ts\<close>\<close>

definition ensureMeta :: "driver \<Rightarrow> db \<Rightarrow> db \<times> error option" where
  "ensureMeta drv d = transaction drv [CreateRegTable, CreateRegIndex] d"

definition getTableVersion :: "string \<Rightarrow> db \<Rightarrow> error + int" where
  "getTableVersion t d =
     (case reg_table d of
        None \<Rightarrow> Inl (NoSuchTable REG_TABLE_NAME)
      | Some rs \<Rightarrow>
          (case filter (\<lambda>r. fst r = t) rs of
             [] \<Rightarrow> Inr 0
           | r # _ \<Rightarrow> Inr (fst (snd r))))"

definition setTableVersion :: "driver \<Rightarrow> string \<Rightarrow> int \<Rightarrow> db \<Rightarrow> db \<times> error option" where
  "setTableVersion drv t v d =
     (let now = clock drv d in transaction drv [UpsertVersion t v now] d)"

definition getExistingColumns :: "string \<Rightarrow> db \<Rightarrow> string list" where
  "getExistingColumns t d =
     (case map_of (tables d) t of
        None \<Rightarrow> []
      | Some tb \<Rightarrow> map pname (tcols tb))"

subsection \<open>\<^verbatim>\<open>types.ts\<close>, \<^verbatim>\<open>core/context.ts\<close> and the migration step\<close>

datatype strategy = Alter | Rebuild

record MigrationCtx =
  mtable :: string
  run :: "string \<Rightarrow> sqlval list \<Rightarrow> db \<Rightarrow> db \<times> error option"
  applyTxn :: "Stmt list \<Rightarrow> db \<Rightarrow> db \<times> error option"
  applyNoTxn :: "Stmt list \<Rightarrow> db \<Rightarrow> db \<times> error option"
  mrebuildPreserveData :: "db \<Rightarrow> db \<times> error option"
  mgetExistingColumns :: "db \<Rightarrow> string list"

text \<open>An absent batch and an empty one are the same to every \<^verbatim>\<open>?.length\<close> test.\<close>

record MigrationStep =
  to :: int
  preNoTxn :: "Stmt list"
  txn :: "Stmt list"
  postNoTxn :: "Stmt list"
  mstrategy :: "strategy option"
  custom :: "(MigrationCtx \<Rightarrow> db \<Rightarrow> db \<times> error option) option"

record DDLOption =
  version :: int
  beforeCreateNoTxn :: "Stmt list"
  afterCreateTxn :: "Stmt list"
  afterCreateNoTxn :: "Stmt list"
  onEveryOpen :: "Stmt list"
  migrationSteps :: "MigrationStep list"

record TableCtx =
  tableName :: string
  columns :: "(string \<times> ColumnSpec) list"
  ddlOption :: "DDLOption option"

subsection \<open>\<^verbatim>\<open>utils/dialect.ts\<close> and \<^verbatim>\<open>createTable\<close>\<close>

text \<open>
  \<^verbatim>\<open>formatDefault\<close>, on the defaults that \<^verbatim>\<open>ColumnSpecNorm<V>\<close> admits for the column's
  type; any other pairing is \<open>IllTyped\<close>. \<^verbatim>\<open>REAL\<close> has no case in the source's switch.
\<close>

fun formatDefault :: "ColumnType \<Rightarrow> jsval \<Rightarrow> error + sqlval" where
  "formatDefault ty JNull = Inr SNull"
| "formatDefault INTEGER (JNum (Some n)) = Inr (SInt n)"
| "formatDefault BOOLEAN (JBool b) = Inr (SInt (if b then 1 else 0))"
| "formatDefault TEXT (JStr s) = Inr (SText s)"
| "formatDefault BLOB (JObj j) = Inr (SText j)"
| "formatDefault REAL v = Inl UnsupportedColumnType"
| "formatDefault ty v = Inl IllTyped"

fun type_name :: "ColumnType \<Rightarrow> string" where
  "type_name TEXT = ''TEXT''"
| "type_name INTEGER = ''INTEGER''"
| "type_name REAL = ''REAL''"
| "type_name BOOLEAN = ''BOOLEAN''"
| "type_name BLOB = ''BLOB''"

text \<open>One element of \<^verbatim>\<open>colDefs\<close>, the same in \<^verbatim>\<open>createTable\<close> and \<^verbatim>\<open>rebuildPreserveData\<close>.\<close>

definition colDef :: "string \<times> ColumnSpec \<Rightarrow> error + pcol" where
  "colDef e =
     (let k = fst e; s = snd e;
          base = \<lparr>pname = k, ptype = type_name (ctype s), pnotnull = \<not> nullable s,
                  punique = unique s,
                  pcheck = (case chk s of None \<Rightarrow> None | Some c \<Rightarrow> if c = [] then None else Some c),
                  pdefault = None, pauto = False\<rparr>
      in case dflt s of
           None \<Rightarrow> Inr base
         | Some v \<Rightarrow>
             (case formatDefault (ctype s) v of
                Inl err \<Rightarrow> Inl err
              | Inr lit \<Rightarrow> Inr (base\<lparr>pdefault := Some lit\<rparr>)))"

fun colDefs :: "(string \<times> ColumnSpec) list \<Rightarrow> error + pcol list" where
  "colDefs [] = Inr []"
| "colDefs (e # es) =
     (case colDef e of
        Inl err \<Rightarrow> Inl err
      | Inr c \<Rightarrow> (case colDefs es of Inl err \<Rightarrow> Inl err | Inr cs \<Rightarrow> Inr (c # cs)))"

text \<open>\<^verbatim>\<open>row_id INTEGER PRIMARY KEY AUTOINCREMENT\<close>\<close>

definition row_id_col :: pcol where
  "row_id_col = \<lparr>pname = SQLITE_RESERVED_PRIMARY_KEY, ptype = ''INTEGER'', pnotnull = False,
                  punique = False, pcheck = None, pdefault = None, pauto = True\<rparr>"

definition createTable :: "driver \<Rightarrow> TableCtx \<Rightarrow> db \<Rightarrow> db \<times> error option" where
  "createTable drv ctx d =
     (case colDefs (columns ctx) of
        Inl err \<Rightarrow> (d, Some err)
      | Inr cs \<Rightarrow> runTxn drv (CreateTable True (tableName ctx) (row_id_col # cs)) d)"

subsection \<open>\<^verbatim>\<open>rebuildPreserveData\<close>\<close>

definition copyCols :: "TableCtx \<Rightarrow> db \<Rightarrow> string list" where
  "copyCols ctx d =
     (let oldCols = getExistingColumns (tableName ctx) d;
          newCols = map fst (columns ctx)
      in filter (\<lambda>c. c \<noteq> SQLITE_RESERVED_PRIMARY_KEY \<and> c \<in> set newCols) oldCols)"

definition rebuildPreserveData :: "driver \<Rightarrow> TableCtx \<Rightarrow> db \<Rightarrow> db \<times> error option" where
  "rebuildPreserveData drv ctx d =
     (let tmp = tableName ctx @ ''__new_'' @ random_suffix drv d in
      case colDefs (columns ctx) of
        Inl err \<Rightarrow> (d, Some err)
      | Inr cs \<Rightarrow>
          (let defs = row_id_col # cs;
               cc = copyCols ctx d
           in transaction drv
                ([PragmaForeignKeys False, CreateTable False tmp defs]
                 @ (if cc \<noteq> [] then [InsertSelect tmp cc (tableName ctx)] else [])
                 @ [DropTable (tableName ctx), RenameTable tmp (tableName ctx),
                    PragmaForeignKeys True]) d))"

subsection \<open>\<^verbatim>\<open>schema/reconcile.ts\<close>\<close>

definition makeMigrationCtx :: "driver \<Rightarrow> TableCtx \<Rightarrow> MigrationCtx" where
  "makeMigrationCtx drv ctx =
     \<lparr>mtable = tableName ctx,
      run = (\<lambda>sql params. runTxn drv (Raw sql params)),
      applyTxn = (\<lambda>stmts. runBatchTxn drv stmts),
      applyNoTxn = (\<lambda>stmts. runBatchNoTxn drv stmts),
      mrebuildPreserveData = rebuildPreserveData drv ctx,
      mgetExistingColumns = getExistingColumns (tableName ctx)\<rparr>"

text \<open>\<^verbatim>\<open>new Map(steps.map(s => [s.to, s]))\<close>: of two steps with one \<^verbatim>\<open>to\<close> the later wins.\<close>

definition stepsByTo :: "MigrationStep list \<Rightarrow> int \<Rightarrow> MigrationStep option" where
  "stepsByTo steps = map_of (rev (map (\<lambda>s. (to s, s)) steps))"

text \<open>\<^verbatim>\<open>if (batch?.length) await runBatch(ctx, batch)\<close>\<close>

definition when_nonempty ::
  "Stmt list \<Rightarrow> (Stmt list \<Rightarrow> db \<Rightarrow> db \<times> error option) \<Rightarrow> db \<Rightarrow> db \<times> error option" where
  "when_nonempty ss f d = (if ss \<noteq> [] then f ss d else (d, None))"

text \<open>The five phases inside the \<^verbatim>\<open>try\<close> block, before the version is raised.\<close>

definition step_phases :: "driver \<Rightarrow> TableCtx \<Rightarrow> MigrationStep \<Rightarrow> db \<Rightarrow> db \<times> error option" where
  "step_phases drv ctx step d =
     and_then (when_nonempty (preNoTxn step) (runBatchNoTxn drv) d) (\<lambda>d1.
     and_then (if mstrategy step = Some Rebuild then rebuildPreserveData drv ctx d1 else (d1, None)) (\<lambda>d2.
     and_then (when_nonempty (txn step) (runBatchTxn drv) d2) (\<lambda>d3.
     and_then (case custom step of None \<Rightarrow> (d3, None) | Some f \<Rightarrow> f (makeMigrationCtx drv ctx) d3) (\<lambda>d4.
     when_nonempty (postNoTxn step) (runBatchNoTxn drv) d4))))"

text \<open>
  One pass of the \<^verbatim>\<open>while\<close> loop of \<^verbatim>\<open>migrateWithSteps\<close>, for the version \<open>next = cur + 1\<close>:
  the rebuild where no step is declared, the phases of the step otherwise, and then
  \<^verbatim>\<open>setTableVersion\<close>. An error of any of them leaves the loop.
\<close>

definition run_version :: "driver \<Rightarrow> TableCtx \<Rightarrow> MigrationStep list \<Rightarrow> int \<Rightarrow> db \<Rightarrow> db \<times> error option" where
  "run_version drv ctx steps next d =
     (case stepsByTo steps next of
        None \<Rightarrow>
          and_then (rebuildPreserveData drv ctx d) (setTableVersion drv (tableName ctx) next)
      | Some step \<Rightarrow>
          and_then (step_phases drv ctx step d) (setTableVersion drv (tableName ctx) next))"

text \<open>The loop, over the map \<^verbatim>\<open>stepsByTo\<close>; it ends because \<open>target - cur\<close> decreases.\<close>

function migrateLoop ::
  "driver \<Rightarrow> TableCtx \<Rightarrow> MigrationStep list \<Rightarrow> int \<Rightarrow> int \<Rightarrow> db \<Rightarrow> db \<times> error option" where
  "migrateLoop drv ctx steps cur target d =
     (if cur < target then
        (case run_version drv ctx steps (cur + 1) d of
           (d', None) \<Rightarrow> migrateLoop drv ctx steps (cur + 1) target d'
         | (d', Some e) \<Rightarrow> (d', Some e))
      else (d, None))"
  by pat_completeness auto
termination
  by (relation "measure (\<lambda>(drv, ctx, steps, cur, target, d). nat (target - cur))") auto

declare migrateLoop.simps [simp del]

definition migrateWithSteps ::
  "driver \<Rightarrow> TableCtx \<Rightarrow> int \<Rightarrow> int \<Rightarrow> db \<Rightarrow> db \<times> error option" where
  "migrateWithSteps drv ctx current target d =
     (case ddlOption ctx of
        None \<Rightarrow> (d, Some NoDDLOption)
      | Some opt \<Rightarrow> migrateLoop drv ctx (migrationSteps opt) current target d)"

definition sameLayout :: "TableCtx \<Rightarrow> string list \<Rightarrow> bool" where
  "sameLayout ctx legacyCols =
     (let newCols = map (\<lambda>e. toLowerCase (fst e)) (columns ctx);
          legacySet = set (map toLowerCase legacyCols)
      in length legacyCols = length newCols \<and> (\<forall>c \<in> set newCols. c \<in> legacySet))"

text \<open>The branch \<^verbatim>\<open>if (current < target)\<close> at the end of \<^verbatim>\<open>reconcileSchema\<close>.\<close>

definition upgrade :: "driver \<Rightarrow> TableCtx \<Rightarrow> DDLOption \<Rightarrow> int \<Rightarrow> db \<Rightarrow> db \<times> error option" where
  "upgrade drv ctx opt current d =
     (let target = version opt in
      if current < target then
        (if migrationSteps opt \<noteq> [] then migrateWithSteps drv ctx current target d
         else
           and_then (rebuildPreserveData drv ctx d) (\<lambda>d1.
           and_then (when_nonempty (afterCreateTxn opt) (runBatchTxn drv) d1) (\<lambda>d2.
           and_then (when_nonempty (afterCreateNoTxn opt) (runBatchNoTxn drv) d2) (\<lambda>d3.
           setTableVersion drv (tableName ctx) target d3))))
      else (d, None))"

definition reconcileSchema :: "driver \<Rightarrow> TableCtx \<Rightarrow> db \<Rightarrow> db \<times> error option" where
  "reconcileSchema drv ctx d =
     (case ddlOption ctx of
        None \<Rightarrow>
          (let legacyCols = getExistingColumns (tableName ctx) d in
           if length legacyCols = 0 then createTable drv ctx d else (d, None))
      | Some opt \<Rightarrow>
          (let target = version opt in
           case getTableVersion (tableName ctx) d of
             Inl e \<Rightarrow> (d, Some e)
           | Inr current \<Rightarrow>
               if current = 0 then
                 (let legacyCols = getExistingColumns (tableName ctx) d;
                      isLegacy = (length legacyCols > 0)
                  in if \<not> isLegacy then
                       and_then (when_nonempty (beforeCreateNoTxn opt) (runBatchNoTxn drv) d) (\<lambda>d1.
                       and_then (createTable drv ctx d1) (\<lambda>d2.
                       and_then (when_nonempty (afterCreateTxn opt) (runBatchTxn drv) d2) (\<lambda>d3.
                       and_then (when_nonempty (afterCreateNoTxn opt) (runBatchNoTxn drv) d3) (\<lambda>d4.
                       setTableVersion drv (tableName ctx) target d4))))
                     else
                       and_then (if \<not> sameLayout ctx legacyCols then rebuildPreserveData drv ctx d
                                 else (d, None)) (\<lambda>d1.
                       and_then (when_nonempty (afterCreateTxn opt) (runBatchTxn drv) d1) (\<lambda>d2.
                       if afterCreateNoTxn opt \<noteq> [] then
                         and_then (runBatchNoTxn drv (afterCreateNoTxn opt) d2)
                           (setTableVersion drv (tableName ctx) target)
                       else upgrade drv ctx opt current d2)))
               else upgrade drv ctx opt current d))"

subsection \<open>\<^verbatim>\<open>SQLiteTable.open\<close> and \<^verbatim>\<open>close\<close>\<close>



subsection \<open>\<^verbatim>\<open>crud/insert.ts\<close>, \<^verbatim>\<open>utils/prep.ts\<close> and \<^verbatim>\<open>insertMany\<close>\<close>










section \<open>Notions used in the statements\<close>


text \<open>
  The statements that write rows of the registry table, and what it means for the caller's
  part of a plan (its statements, run by the driver, and its custom procedures) to leave
  the registry to the library.
\<close>

fun writes_registry :: "Stmt \<Rightarrow> bool" where
  "writes_registry CreateRegTable = True"
| "writes_registry (UpsertVersion t v now) = True"
| "writes_registry s = False"

fun is_raw :: "Stmt \<Rightarrow> bool" where
  "is_raw (Raw q ps) = True"
| "is_raw s = False"

definition raw_keeps_registry :: "driver \<Rightarrow> bool" where
  "raw_keeps_registry drv =
     (\<forall>q ps d d'. exec_raw drv q ps d = Inr d' \<longrightarrow> reg_table d' = reg_table d)"

definition step_keeps_registry :: "driver \<Rightarrow> TableCtx \<Rightarrow> MigrationStep \<Rightarrow> bool" where
  "step_keeps_registry drv ctx st =
     ((\<forall>s \<in> set (preNoTxn st @ txn st @ postNoTxn st). \<not> writes_registry s)
      \<and> (\<forall>f d. custom st = Some f \<longrightarrow> reg_table (fst (f (makeMigrationCtx drv ctx) d)) = reg_table d))"

definition plan_keeps_registry :: "driver \<Rightarrow> TableCtx \<Rightarrow> DDLOption \<Rightarrow> bool" where
  "plan_keeps_registry drv ctx opt =
     ((\<forall>s \<in> set (beforeCreateNoTxn opt @ afterCreateTxn opt @ afterCreateNoTxn opt). \<not> writes_registry s)
      \<and> (\<forall>st \<in> set (migrationSteps opt). step_keeps_registry drv ctx st))"

text \<open>The version the registry reports for a table; 0 where it cannot be read.\<close>

definition recorded :: "string \<Rightarrow> db \<Rightarrow> int" where
  "recorded t d = (case getTableVersion t d of Inl e \<Rightarrow> 0 | Inr v \<Rightarrow> v)"

text \<open>The identities of the rows of a table, and the identities \<open>1, \<dots>, n\<close>.\<close>

definition row_ids :: "table \<Rightarrow> sqlval list" where
  "row_ids t = map (\<lambda>r. col_value r SQLITE_RESERVED_PRIMARY_KEY) (trows t)"

definition fresh_ids :: "nat \<Rightarrow> sqlval list" where
  "fresh_ids n = map (\<lambda>i. SInt (int i)) [1..<Suc n]"


section \<open>Concrete stores and declarations\<close>

text \<open>
  A driver whose only failing caller statement is \<^verbatim>\<open>FAIL\<close>, and small stores and
  declarations at which the theorems below are instantiated.
\<close>

definition drv0 :: driver where
  "drv0 = \<lparr>exec_raw = (\<lambda>s ps d. if s = ''FAIL'' then Inl (StatementFailed s) else Inr d),
           check_holds = (\<lambda>e r. True), clock = (\<lambda>d. 1000), random_suffix = (\<lambda>d. ''1700000000000_k3x''),
           open_database = None\<rparr>"

definition fresh_db :: db where
  "fresh_db = \<lparr>tables = [], reg_table = None, indexes = []\<rparr>"

definition plain_col :: "string \<Rightarrow> pcol" where
  "plain_col n = \<lparr>pname = n, ptype = ''TEXT'', pnotnull = False, punique = False,
                  pcheck = None, pdefault = None, pauto = False\<rparr>"

definition text_null :: ColumnSpec where
  "text_null = \<lparr>ctype = TEXT, nullable = True, dflt = None, unique = False, chk = None\<rparr>"

definition ctx_notes :: TableCtx where
  "ctx_notes = \<lparr>tableName = ''notes'', columns = [(''title'', text_null)], ddlOption = None\<rparr>"

definition text_required :: ColumnSpec where
  "text_required = \<lparr>ctype = TEXT, nullable = False, dflt = None, unique = False, chk = None\<rparr>"

definition ctx_strict :: TableCtx where
  "ctx_strict = \<lparr>tableName = ''notes'', columns = [(''title'', text_required)], ddlOption = None\<rparr>"

definition step_to :: "int \<Rightarrow> Stmt list \<Rightarrow> MigrationStep" where
  "step_to v ss = \<lparr>to = v, preNoTxn = [], txn = ss, postNoTxn = [], mstrategy = None, custom = None\<rparr>"

definition db_v1 :: db where
  "db_v1 = \<lparr>tables = [(''t'', \<lparr>tcols = [row_id_col, plain_col ''a''],
                                 trows = [[(''row_id'', SInt 4), (''a'', SText (js ''x''))]]\<rparr>)],
            reg_table = Some [(''t'', 1, 0)], indexes = [REG_INDEX_NAME]\<rparr>"

definition db_v1_rebuilt :: db where
  "db_v1_rebuilt = \<lparr>tables = [(''t'', \<lparr>tcols = [row_id_col, plain_col ''a''],
                                 trows = [[(''row_id'', SInt 1), (''a'', SText (js ''x''))]]\<rparr>)],
            reg_table = Some [(''t'', 1, 0)], indexes = [REG_INDEX_NAME]\<rparr>"

definition plan3 :: DDLOption where
  "plan3 = \<lparr>version = 3, beforeCreateNoTxn = [], afterCreateTxn = [], afterCreateNoTxn = [],
            onEveryOpen = [], migrationSteps = [step_to 3 [Raw ''CREATE INDEX i ON t(a)'' []]]\<rparr>"

definition ctx_t3 :: TableCtx where
  "ctx_t3 = \<lparr>tableName = ''t'', columns = [(''a'', text_null)], ddlOption = Some plan3\<rparr>"

definition legacy_ab :: db where
  "legacy_ab = \<lparr>tables = [(''t'', \<lparr>tcols = [plain_col ''a'', plain_col ''b''],
                                   trows = [[(''a'', SText (js ''x'')), (''b'', SText (js ''y''))]]\<rparr>)],
               reg_table = Some [], indexes = [REG_INDEX_NAME]\<rparr>"

definition plan1 :: DDLOption where
  "plan1 = \<lparr>version = 1, beforeCreateNoTxn = [], afterCreateTxn = [], afterCreateNoTxn = [],
            onEveryOpen = [], migrationSteps = []\<rparr>"

definition ctx_ab :: TableCtx where
  "ctx_ab = \<lparr>tableName = ''t'', columns = [(''a'', text_null), (''b'', text_null)],
             ddlOption = Some plan1\<rparr>"

definition legacy_ab_adopted :: db where
  "legacy_ab_adopted = \<lparr>tables = [(''t'', \<lparr>tcols = [row_id_col, plain_col ''a'', plain_col ''b''],
                                   trows = [[(''row_id'', SInt 1), (''a'', SText (js ''x'')), (''b'', SText (js ''y''))]]\<rparr>)],
               reg_table = Some [(''t'', 1, 1000)], indexes = [REG_INDEX_NAME]\<rparr>"





definition db_people :: db where
  "db_people = \<lparr>tables = [(''people'', \<lparr>tcols = [row_id_col, plain_col ''Name'', plain_col ''age''],
                 trows = [[(''row_id'', SInt 1), (''Name'', SText (js ''ann'')), (''age'', SText (js ''41''))]]\<rparr>)],
               reg_table = Some [(''people'', 1, 0)], indexes = [REG_INDEX_NAME]\<rparr>"

definition ctx_people :: TableCtx where
  "ctx_people = \<lparr>tableName = ''people'', columns = [(''name'', text_null), (''age'', text_null)],
                 ddlOption = None\<rparr>"

definition db_people_rebuilt :: db where
  "db_people_rebuilt = \<lparr>tables = [(''people'', \<lparr>tcols = [row_id_col, plain_col ''name'', plain_col ''age''],
                 trows = [[(''row_id'', SInt 1), (''name'', SNull), (''age'', SText (js ''41''))]]\<rparr>)],
               reg_table = Some [(''people'', 1, 0)], indexes = [REG_INDEX_NAME]\<rparr>"

definition db_ready :: db where
  "db_ready = \<lparr>tables = [], reg_table = Some [], indexes = [REG_INDEX_NAME]\<rparr>"

definition plan_boot :: DDLOption where
  "plan_boot = \<lparr>version = 1, beforeCreateNoTxn = [], afterCreateTxn = [Raw ''FAIL'' []],
                afterCreateNoTxn = [], onEveryOpen = [], migrationSteps = []\<rparr>"

definition ctx_boot :: TableCtx where
  "ctx_boot = \<lparr>tableName = ''t'', columns = [(''a'', text_null)], ddlOption = Some plan_boot\<rparr>"

definition db_boot_failed :: db where
  "db_boot_failed = \<lparr>tables = [(''t'', \<lparr>tcols = [row_id_col, plain_col ''a''], trows = []\<rparr>)],
                     reg_table = Some [], indexes = [REG_INDEX_NAME]\<rparr>"

definition text_default :: ColumnSpec where
  "text_default = \<lparr>ctype = TEXT, nullable = False, dflt = Some (JStr (js ''none'')), unique = False,
                    chk = None\<rparr>"

definition ctx_three :: TableCtx where
  "ctx_three = \<lparr>tableName = ''notes'',
                columns = [(''tag'', text_default), (''note'', text_null), (''title'', text_required)],
                ddlOption = None\<rparr>"


definition db_notes :: db where
  "db_notes = \<lparr>tables = [(''notes'', \<lparr>tcols = [plain_col ''title''], trows = [[(''title'', SText (js ''x''))]]\<rparr>)],
               reg_table = Some [], indexes = [REG_INDEX_NAME]\<rparr>"







definition three_cols :: "pcol list" where
  "three_cols =
     [\<lparr>pname = ''tag'', ptype = ''TEXT'', pnotnull = True, punique = False, pcheck = None,
        pdefault = Some (SText (js ''none'')), pauto = False\<rparr>,
      \<lparr>pname = ''note'', ptype = ''TEXT'', pnotnull = False, punique = False, pcheck = None,
        pdefault = None, pauto = False\<rparr>,
      \<lparr>pname = ''title'', ptype = ''TEXT'', pnotnull = True, punique = False, pcheck = None,
        pdefault = None, pauto = False\<rparr>]"

definition db_three :: db where
  "db_three = \<lparr>tables = [(''notes'', \<lparr>tcols = row_id_col # three_cols, trows = []\<rparr>)],
               reg_table = Some [], indexes = [REG_INDEX_NAME]\<rparr>"


definition strict_cols :: "pcol list" where
  "strict_cols =
     [\<lparr>pname = ''title'', ptype = ''TEXT'', pnotnull = True, punique = False, pcheck = None,
        pdefault = None, pauto = False\<rparr>]"

definition db_strict :: db where
  "db_strict = \<lparr>tables = [(''notes'', \<lparr>tcols = row_id_col # strict_cols, trows = []\<rparr>)],
               reg_table = Some [], indexes = [REG_INDEX_NAME]\<rparr>"

section \<open>Properties\<close>

subsection \<open>Sequencing and the registry\<close>

lemma and_then_None:
  "and_then r f = (d', None) \<Longrightarrow> \<exists>d1. r = (d1, None) \<and> f d1 = (d', None)"
  by (auto simp: and_then_def split: prod.splits option.splits)

lemma and_then_ok [simp]: "and_then (d1, None) f = f d1"
  by (simp add: and_then_def)

lemma and_then_err [simp]: "and_then (d1, Some e) f = (d1, Some e)"
  by (simp add: and_then_def)


lemma ensureMeta_eq:
  "ensureMeta drv d =
     (d\<lparr>reg_table := Some (case reg_table d of None \<Rightarrow> [] | Some rs \<Rightarrow> rs),
        indexes := (if REG_INDEX_NAME \<in> set (indexes d) then indexes d
                    else indexes d @ [REG_INDEX_NAME])\<rparr>, None)"
  by (cases "reg_table d") (simp_all add: ensureMeta_def transaction_def)

lemma ensureMeta_twice:
  "ensureMeta drv (fst (ensureMeta drv d)) = (fst (ensureMeta drv d), None)"
  by (simp add: ensureMeta_eq)

lemma ensureMeta_funpow:
  "0 < n \<Longrightarrow> ((\<lambda>s. fst (ensureMeta drv s)) ^^ n) d = fst (ensureMeta drv d)"
proof (induction n)
  case 0
  then show ?case by simp
next
  case (Suc n)
  show ?case
  proof (cases "n = 0")
    case True
    then show ?thesis by simp
  next
    case False
    with Suc have "((\<lambda>s. fst (ensureMeta drv s)) ^^ n) d = fst (ensureMeta drv d)" by simp
    then show ?thesis by (simp add: ensureMeta_twice)
  qed
qed

lemma count_list_append1: "count_list (xs @ [x]) y = count_list xs y + (if x = y then 1 else 0)"
  by (induction xs) auto

lemma count_list_0: "x \<notin> set xs \<Longrightarrow> count_list xs x = 0"
  by (induction xs) auto

lemma count_list_pos: "x \<in> set xs \<Longrightarrow> 0 < count_list xs x"
  by (induction xs) auto

subsection \<open>Unmanaged mode\<close>



lemma reconcile_notes: "reconcileSchema drv0 ctx_notes db_notes = (db_notes, None)"
  by code_simp



subsection \<open>Validation of a row to insert\<close>










subsection \<open>Statements that leave the registry alone\<close>

lemma exec_stmt_keeps:
  assumes "raw_keeps_registry drv \<or> \<not> is_raw s" and "\<not> writes_registry s"
      and "exec_stmt drv s d = Inr d'"
  shows "reg_table d' = reg_table d"
proof (cases s)
  case (Raw q ps)
  with assms show ?thesis by (auto simp: raw_keeps_registry_def)
next
  case (CreateTable b n cs)
  with assms(3) show ?thesis by (auto split: option.splits if_splits)
next
  case (InsertSelect dst cs src)
  with assms(3) show ?thesis by (auto split: option.splits list.splits sum.splits)
next
  case (DropTable n)
  with assms(3) show ?thesis by (auto split: option.splits)
next
  case (RenameTable a b)
  with assms(3) show ?thesis by (auto split: option.splits)
next
  case CreateRegIndex
  with assms(3) show ?thesis by (auto split: option.splits if_splits)
next
  case (InsertValues n cs vs)
  with assms(3) show ?thesis by (auto split: option.splits sum.splits)
next
  case (InsertDefaultValues n)
  with assms(3) show ?thesis by (auto split: option.splits sum.splits)
qed (use assms in auto)

lemma exec_all_keeps:
  assumes "raw_keeps_registry drv \<or> (\<forall>s \<in> set ss. \<not> is_raw s)"
      and "\<forall>s \<in> set ss. \<not> writes_registry s"
      and "exec_all drv ss d = Inr d'"
  shows "reg_table d' = reg_table d"
  using assms
proof (induction ss arbitrary: d)
  case Nil
  then show ?case by simp
next
  case (Cons s ss)
  from Cons.prems(3) obtain d1 where s: "exec_stmt drv s d = Inr d1" and r: "exec_all drv ss d1 = Inr d'"
    by (auto split: sum.splits)
  from Cons.prems(1,2) s have "reg_table d1 = reg_table d"
    by (intro exec_stmt_keeps [of drv s d d1]) auto
  moreover from Cons.prems(1,2) r have "reg_table d' = reg_table d1"
    by (intro Cons.IH) auto
  ultimately show ?case by simp
qed

lemma transaction_keeps:
  assumes "raw_keeps_registry drv \<or> (\<forall>s \<in> set ss. \<not> is_raw s)"
      and "\<forall>s \<in> set ss. \<not> writes_registry s"
  shows "reg_table (fst (transaction drv ss d)) = reg_table d"
proof (cases "exec_all drv ss d")
  case (Inl e)
  then show ?thesis by (simp add: transaction_def)
next
  case (Inr d')
  with exec_all_keeps [OF assms Inr] show ?thesis by (simp add: transaction_def)
qed

lemma runBatchNoTxn_keeps:
  assumes "raw_keeps_registry drv" and "\<forall>s \<in> set ss. \<not> writes_registry s"
  shows "reg_table (fst (runBatchNoTxn drv ss d)) = reg_table d"
  using assms(2)
proof (induction ss arbitrary: d)
  case Nil
  then show ?case by simp
next
  case (Cons s ss)
  show ?case
  proof (cases "exec_stmt drv s d")
    case (Inl e)
    then show ?thesis by (simp add: runNoTxn_def)
  next
    case (Inr d1)
    with assms(1) Cons.prems have "reg_table d1 = reg_table d"
      by (intro exec_stmt_keeps [of drv s d d1]) auto
    moreover from Cons.prems have "reg_table (fst (runBatchNoTxn drv ss d1)) = reg_table d1"
      by (intro Cons.IH) auto
    ultimately show ?thesis using Inr by (simp add: runNoTxn_def)
  qed
qed

lemma rebuild_keeps: "reg_table (fst (rebuildPreserveData drv ctx d)) = reg_table d"
proof (cases "colDefs (columns ctx)")
  case (Inl e)
  then show ?thesis by (simp add: rebuildPreserveData_def Let_def)
next
  case (Inr cs)
  then show ?thesis
    by (simp add: rebuildPreserveData_def Let_def transaction_keeps)
qed

lemma and_then_keeps:
  assumes "reg_table (fst r) = reg_table d" and "\<And>d1. reg_table (fst (f d1)) = reg_table d1"
  shows "reg_table (fst (and_then r f)) = reg_table d"
proof (cases r)
  case (Pair d1 e)
  with assms show ?thesis by (cases e) simp_all
qed

lemma when_nonempty_txn_keeps:
  assumes "raw_keeps_registry drv" and "\<forall>s \<in> set ss. \<not> writes_registry s"
  shows "reg_table (fst (when_nonempty ss (runBatchTxn drv) d)) = reg_table d"
  using assms by (simp add: when_nonempty_def runBatchTxn_def transaction_keeps)

lemma when_nonempty_notxn_keeps:
  assumes "raw_keeps_registry drv" and "\<forall>s \<in> set ss. \<not> writes_registry s"
  shows "reg_table (fst (when_nonempty ss (runBatchNoTxn drv) d)) = reg_table d"
  using assms by (simp add: when_nonempty_def runBatchNoTxn_keeps)

lemma step_phases_keeps:
  assumes "raw_keeps_registry drv" and "step_keeps_registry drv ctx st"
  shows "reg_table (fst (step_phases drv ctx st d)) = reg_table d"
proof -
  from assms(2) have pre: "\<forall>s \<in> set (preNoTxn st). \<not> writes_registry s"
    and tx: "\<forall>s \<in> set (txn st). \<not> writes_registry s"
    and post: "\<forall>s \<in> set (postNoTxn st). \<not> writes_registry s"
    and cust: "\<And>f d. custom st = Some f \<Longrightarrow> reg_table (fst (f (makeMigrationCtx drv ctx) d)) = reg_table d"
    by (auto simp: step_keeps_registry_def)
  have c: "reg_table (fst (case custom st of None \<Rightarrow> (d3, None) | Some f \<Rightarrow> f (makeMigrationCtx drv ctx) d3))
      = reg_table d3" for d3
    using cust by (cases "custom st") simp_all
  show ?thesis
    unfolding step_phases_def
    by (intro and_then_keeps when_nonempty_notxn_keeps when_nonempty_txn_keeps assms(1) pre tx post c)
       (simp_all add: rebuild_keeps)
qed

subsection \<open>Writing and reading a version\<close>

lemma filter_upsert:
  "filter (\<lambda>r. fst r = t) (upsert_version t v now rs) \<noteq> []
   \<and> fst (snd (hd (filter (\<lambda>r. fst r = t) (upsert_version t v now rs)))) = v"
proof (cases "t \<in> set (map fst rs)")
  case False
  then have "filter (\<lambda>r. fst r = t) rs = []" by (induction rs) auto
  with False show ?thesis by (simp add: upsert_version_def)
next
  case True
  then have "filter (\<lambda>r. fst r = t) (map (\<lambda>(k, old). if k = t then (k, v, now) else (k, old)) rs) \<noteq> []
     \<and> fst (snd (hd (filter (\<lambda>r. fst r = t) (map (\<lambda>(k, old). if k = t then (k, v, now) else (k, old)) rs)))) = v"
    by (induction rs) auto
  with True show ?thesis by (simp add: upsert_version_def)
qed

lemma setTableVersion_cases:
  "setTableVersion drv t v d =
     (case reg_table d of
        None \<Rightarrow> (d, Some (NoSuchTable REG_TABLE_NAME))
      | Some rs \<Rightarrow> (d\<lparr>reg_table := Some (upsert_version t v (clock drv d) rs)\<rparr>, None))"
  by (simp add: setTableVersion_def transaction_def split: option.splits)

lemma setTableVersion_read:
  assumes "setTableVersion drv t v d = (d', None)"
  shows "getTableVersion t d' = Inr v \<and> tables d' = tables d"
proof -
  from assms obtain rs where rs: "reg_table d = Some rs"
    and d': "d' = d\<lparr>reg_table := Some (upsert_version t v (clock drv d) rs)\<rparr>"
    by (auto simp: setTableVersion_cases split: option.splits)
  from filter_upsert [of t v "clock drv d" rs] show ?thesis
    by (cases "filter (\<lambda>r. fst r = t) (upsert_version t v (clock drv d) rs)")
       (simp_all add: d' getTableVersion_def)
qed

lemma setTableVersion_failed:
  "setTableVersion drv t v d = (d', Some e) \<Longrightarrow> d' = d"
  by (auto simp: setTableVersion_cases split: option.splits)

lemma migrateLoop_unfold:
  "cur < target \<Longrightarrow>
   migrateLoop drv ctx steps cur target d =
     (case run_version drv ctx steps (cur + 1) d of
        (d', None) \<Rightarrow> migrateLoop drv ctx steps (cur + 1) target d'
      | (d', Some e) \<Rightarrow> (d', Some e))"
  by (subst migrateLoop.simps) simp

lemma migrateLoop_done: "\<not> cur < target \<Longrightarrow> migrateLoop drv ctx steps cur target d = (d, None)"
  by (subst migrateLoop.simps) simp

lemma run_version_read:
  assumes "run_version drv ctx steps v d = (d', None)"
  shows "getTableVersion (tableName ctx) d' = Inr v"
proof -
  from assms obtain d1 where "setTableVersion drv (tableName ctx) v d1 = (d', None)"
    by (auto simp: run_version_def split: option.splits dest: and_then_None)
  then show ?thesis by (simp add: setTableVersion_read)
qed

lemma migrateLoop_reaches_target:
  "cur < target \<Longrightarrow> migrateLoop drv ctx steps cur target d = (d', None) \<Longrightarrow>
   getTableVersion (tableName ctx) d' = Inr target"
proof (induction drv ctx steps cur target d rule: migrateLoop.induct)
  case (1 drv ctx steps cur target d)
  obtain d1 r where rv: "run_version drv ctx steps (cur + 1) d = (d1, r)"
    by (cases "run_version drv ctx steps (cur + 1) d")
  from "1.prems" rv have r: "r = None" and rest: "migrateLoop drv ctx steps (cur + 1) target d1 = (d', None)"
    by (auto simp: migrateLoop_unfold split: option.splits)
  show ?case
  proof (cases "cur + 1 < target")
    case True
    from "1.IH" [OF "1.prems"(1) _ _ True rest] rv r show ?thesis by simp
  next
    case False
    with "1.prems"(1) have eq: "cur + 1 = target" by simp
    from rest False have "d' = d1" by (simp add: migrateLoop_done)
    with run_version_read [of drv ctx steps "cur + 1" d d1] rv r eq show ?thesis by simp
  qed
qed

subsection \<open>A rebuild, evaluated\<close>

lemma rebuild_db_v1: "rebuildPreserveData drv0 ctx_t3 db_v1 = (db_v1_rebuilt, None)"
  by code_simp

subsection \<open>Legacy adoption\<close>

lemma reconcile_legacy_ab: "reconcileSchema drv0 ctx_ab legacy_ab = (legacy_ab_adopted, None)"
  by code_simp

lemma upgrade_reaches_target:
  assumes "ddlOption ctx = Some opt" and "current < version opt"
      and "upgrade drv ctx opt current d = (d', None)"
  shows "getTableVersion (tableName ctx) d' = Inr (version opt)"
proof (cases "migrationSteps opt \<noteq> []")
  case True
  with assms have "migrateLoop drv ctx (migrationSteps opt) current (version opt) d = (d', None)"
    by (simp add: upgrade_def migrateWithSteps_def Let_def)
  with assms(2) show ?thesis by (rule migrateLoop_reaches_target)
next
  case False
  with assms(2,3) obtain d3 where "setTableVersion drv (tableName ctx) (version opt) d3 = (d', None)"
    by (auto simp: upgrade_def Let_def dest!: and_then_None)
  then show ?thesis by (simp add: setTableVersion_read)
qed

text \<open>
  C1, as the code has it. In legacy adoption with an empty after-create-no-transaction
  batch the legacy branch writes no version, and control reaches the branch
  \<^verbatim>\<open>if (current < target)\<close> with \<open>current = 0\<close>: for a positive target version, a
  reconciliation that ends without error has written that version, and the registry
  reports it.
\<close>

theorem legacy_empty_batch_falls_through:
  assumes "ddlOption ctx = Some opt"
      and "getTableVersion (tableName ctx) d = Inr 0"
      and "getExistingColumns (tableName ctx) d \<noteq> []"
      and "afterCreateNoTxn opt = []"
      and "0 < version opt"
      and "reconcileSchema drv ctx d = (d', None)"
  shows "getTableVersion (tableName ctx) d' = Inr (version opt)"
proof -
  from assms(1-4) have "reconcileSchema drv ctx d =
      and_then (if \<not> sameLayout ctx (getExistingColumns (tableName ctx) d)
                then rebuildPreserveData drv ctx d else (d, None)) (\<lambda>d1.
      and_then (when_nonempty (afterCreateTxn opt) (runBatchTxn drv) d1) (\<lambda>d2.
      upgrade drv ctx opt 0 d2))"
    by (simp add: reconcileSchema_def Let_def)
  with assms(6) obtain d2 where "upgrade drv ctx opt 0 d2 = (d', None)"
    by (auto dest!: and_then_None)
  with assms(1,5) show ?thesis by (intro upgrade_reaches_target [of ctx opt 0 drv d2 d']) auto
qed

theorem legacy_empty_batch_witness:
  "ddlOption ctx_ab = Some plan1
   \<and> getTableVersion (tableName ctx_ab) legacy_ab = Inr 0
   \<and> getExistingColumns (tableName ctx_ab) legacy_ab = [''a'', ''b'']
   \<and> afterCreateNoTxn plan1 = []
   \<and> 0 < version plan1
   \<and> reconcileSchema drv0 ctx_ab legacy_ab = (legacy_ab_adopted, None)
   \<and> getTableVersion (tableName ctx_ab) legacy_ab_adopted = Inr (version plan1)"
proof -
  have h: "ddlOption ctx_ab = Some plan1" "getTableVersion (tableName ctx_ab) legacy_ab = Inr 0"
    "getExistingColumns (tableName ctx_ab) legacy_ab \<noteq> []" "afterCreateNoTxn plan1 = []"
    "0 < version plan1"
    by (simp_all add: ctx_ab_def plan1_def legacy_ab_def getTableVersion_def getExistingColumns_def)
  from legacy_empty_batch_falls_through [OF h reconcile_legacy_ab] h reconcile_legacy_ab
  show ?thesis
    by (simp add: ctx_ab_def legacy_ab_def getExistingColumns_def plain_col_def)
qed

theorem legacy_empty_batch_counterexample:
  "ddlOption ctx_ab = Some plan1
   \<and> afterCreateNoTxn plan1 = []
   \<and> getTableVersion ''t'' legacy_ab = Inr 0
   \<and> getExistingColumns ''t'' legacy_ab = [''a'', ''b'']
   \<and> snd (reconcileSchema drv0 ctx_ab legacy_ab) = None
   \<and> getTableVersion ''t'' (fst (reconcileSchema drv0 ctx_ab legacy_ab)) = Inr 1"
  by (simp add: reconcile_legacy_ab)
     (simp add: ctx_ab_def plan1_def legacy_ab_def legacy_ab_adopted_def getTableVersion_def
        getExistingColumns_def plain_col_def)

subsection \<open>A failing migration step\<close>

lemma getTableVersion_cong: "reg_table d1 = reg_table d \<Longrightarrow> getTableVersion t d1 = getTableVersion t d"
  by (simp add: getTableVersion_def)

lemma stepsByTo_member: "stepsByTo steps v = Some st \<Longrightarrow> st \<in> set steps"
  by (auto simp: stepsByTo_def dest!: map_of_SomeD)



lemma drv0_keeps: "raw_keeps_registry drv0"
  by (auto simp: raw_keeps_registry_def drv0_def split: if_splits)


subsection \<open>The recorded version never decreases\<close>

lemma recorded_cong: "reg_table d1 = reg_table d \<Longrightarrow> recorded t d1 = recorded t d"
  by (simp add: recorded_def getTableVersion_def)

lemma set_version_ge:
  assumes "recorded t d \<le> v"
  shows "recorded t d \<le> recorded t (fst (setTableVersion drv t v d))"
proof (cases "setTableVersion drv t v d")
  case (Pair d' r)
  show ?thesis
  proof (cases r)
    case None
    with Pair setTableVersion_read [of drv t v d d'] assms show ?thesis
      by (simp add: recorded_def)
  next
    case (Some e)
    with Pair setTableVersion_failed [of drv t v d d' e] show ?thesis by simp
  qed
qed

lemma and_then_ge:
  assumes "reg_table (fst r) = reg_table d"
      and "\<And>d1. reg_table d1 = reg_table d \<Longrightarrow> recorded t d \<le> recorded t (fst (f d1))"
  shows "recorded t d \<le> recorded t (fst (and_then r f))"
proof (cases r)
  case (Pair d1 e)
  show ?thesis
  proof (cases e)
    case None
    with Pair assms show ?thesis by simp
  next
    case (Some err)
    with Pair assms(1) recorded_cong [of d1 d t] show ?thesis by simp
  qed
qed

lemma set_after_keeps_ge:
  assumes "reg_table d1 = reg_table d" and "recorded t d \<le> v"
  shows "recorded t d \<le> recorded t (fst (setTableVersion drv t v d1))"
proof -
  from assms have "recorded t d1 \<le> v" by (simp add: recorded_cong [of d1 d t])
  from set_version_ge [OF this, of drv] recorded_cong [OF assms(1), of t] show ?thesis by simp
qed

lemma run_version_ge:
  assumes "raw_keeps_registry drv" and "\<forall>st \<in> set steps. step_keeps_registry drv ctx st"
      and "recorded (tableName ctx) d \<le> v"
  shows "recorded (tableName ctx) d \<le> recorded (tableName ctx) (fst (run_version drv ctx steps v d))"
proof (cases "stepsByTo steps v")
  case None
  then show ?thesis
    by (simp add: run_version_def)
       (intro and_then_ge rebuild_keeps set_after_keeps_ge assms(3))
next
  case (Some st)
  with assms(2) have "step_keeps_registry drv ctx st" by (auto dest: stepsByTo_member)
  with Some show ?thesis
    by (simp add: run_version_def)
       (intro and_then_ge step_phases_keeps set_after_keeps_ge assms(1,3))
qed

lemma migrateLoop_ge:
  assumes "raw_keeps_registry drv" and "\<forall>st \<in> set steps. step_keeps_registry drv ctx st"
  shows "recorded (tableName ctx) d \<le> cur \<Longrightarrow>
         recorded (tableName ctx) d \<le> recorded (tableName ctx) (fst (migrateLoop drv ctx steps cur target d))"
  using assms
proof (induction drv ctx steps cur target d rule: migrateLoop.induct)
  case (1 drv ctx steps cur target d)
  show ?case
  proof (cases "cur < target")
    case False
    then show ?thesis by (simp add: migrateLoop_done)
  next
    case True
    obtain d1 r where rv: "run_version drv ctx steps (cur + 1) d = (d1, r)"
      by (cases "run_version drv ctx steps (cur + 1) d")
    from "1.prems" have le: "recorded (tableName ctx) d \<le> cur + 1" by simp
    from run_version_ge [OF "1.prems"(2,3) le] rv
    have ge1: "recorded (tableName ctx) d \<le> recorded (tableName ctx) d1" by simp
    show ?thesis
    proof (cases r)
      case (Some e)
      with True rv ge1 show ?thesis by (simp add: migrateLoop_unfold)
    next
      case None
      with rv run_version_read [of drv ctx steps "cur + 1" d d1]
      have "recorded (tableName ctx) d1 = cur + 1" by (simp add: recorded_def)
      then have "recorded (tableName ctx) d1 \<le> cur + 1" by simp
      from "1.IH" [OF True rv [symmetric] None this "1.prems"(2,3)]
      have "recorded (tableName ctx) d1
              \<le> recorded (tableName ctx) (fst (migrateLoop drv ctx steps (cur + 1) target d1))"
        by simp
      with ge1 True rv None show ?thesis by (simp add: migrateLoop_unfold)
    qed
  qed
qed

lemma and_then_ge_fun:
  assumes "\<And>s. reg_table (fst (g s)) = reg_table s"
      and "\<And>s. reg_table s = reg_table d \<Longrightarrow> recorded t d \<le> recorded t (fst (f s))"
      and "reg_table s0 = reg_table d"
  shows "recorded t d \<le> recorded t (fst (and_then (g s0) f))"
proof (rule and_then_ge)
  show "reg_table (fst (g s0)) = reg_table d" using assms(1) [of s0] assms(3) by simp
qed (rule assms(2))

lemma createTable_keeps: "reg_table (fst (createTable drv ctx d)) = reg_table d"
  by (cases "colDefs (columns ctx)") (simp_all add: createTable_def runTxn_def transaction_keeps)

lemma plan_keeps_parts:
  assumes "plan_keeps_registry drv ctx opt"
  shows "\<forall>s \<in> set (beforeCreateNoTxn opt). \<not> writes_registry s"
    and "\<forall>s \<in> set (afterCreateTxn opt). \<not> writes_registry s"
    and "\<forall>s \<in> set (afterCreateNoTxn opt). \<not> writes_registry s"
    and "\<forall>st \<in> set (migrationSteps opt). step_keeps_registry drv ctx st"
  using assms by (auto simp: plan_keeps_registry_def)

lemma upgrade_ge:
  assumes "raw_keeps_registry drv" and "plan_keeps_registry drv ctx opt"
      and "ddlOption ctx = Some opt"
      and "reg_table s0 = reg_table d" and "recorded (tableName ctx) d \<le> current"
  shows "recorded (tableName ctx) d \<le> recorded (tableName ctx) (fst (upgrade drv ctx opt current s0))"
proof -
  let ?t = "tableName ctx"
  note p = plan_keeps_parts [OF assms(2)]
  have same: "recorded ?t s0 = recorded ?t d" using assms(4) by (rule recorded_cong)
  show ?thesis
  proof (cases "current < version opt")
    case False
    with same show ?thesis by (simp add: upgrade_def Let_def)
  next
    case True
    show ?thesis
    proof (cases "migrationSteps opt \<noteq> []")
      case steps: True
      from assms(5) same have "recorded ?t s0 \<le> current" by simp
      from migrateLoop_ge [OF assms(1) p(4) this, of "version opt"] same True steps assms(3)
      show ?thesis by (simp add: upgrade_def Let_def migrateWithSteps_def)
    next
      case False
      have le: "recorded ?t d \<le> version opt" using assms(5) True by simp
      have "recorded ?t d \<le> recorded ?t (fst (
           and_then (rebuildPreserveData drv ctx s0) (\<lambda>d1.
           and_then (when_nonempty (afterCreateTxn opt) (runBatchTxn drv) d1) (\<lambda>d2.
           and_then (when_nonempty (afterCreateNoTxn opt) (runBatchNoTxn drv) d2) (\<lambda>d3.
           setTableVersion drv ?t (version opt) d3)))))"
      proof (rule and_then_ge_fun [where g = "rebuildPreserveData drv ctx"])
        show "reg_table (fst (rebuildPreserveData drv ctx s)) = reg_table s" for s
          by (rule rebuild_keeps)
        show "reg_table s0 = reg_table d" by (rule assms(4))
        show "recorded ?t d \<le> recorded ?t (fst (
           and_then (when_nonempty (afterCreateTxn opt) (runBatchTxn drv) d1) (\<lambda>d2.
           and_then (when_nonempty (afterCreateNoTxn opt) (runBatchNoTxn drv) d2) (\<lambda>d3.
           setTableVersion drv ?t (version opt) d3))))" if d1: "reg_table d1 = reg_table d" for d1
        proof (rule and_then_ge_fun [where g = "when_nonempty (afterCreateTxn opt) (runBatchTxn drv)"])
          show "reg_table (fst (when_nonempty (afterCreateTxn opt) (runBatchTxn drv) s)) = reg_table s" for s
            by (rule when_nonempty_txn_keeps [OF assms(1) p(2)])
          show "reg_table d1 = reg_table d" by (rule d1)
          show "recorded ?t d \<le> recorded ?t (fst (
             and_then (when_nonempty (afterCreateNoTxn opt) (runBatchNoTxn drv) d2) (\<lambda>d3.
             setTableVersion drv ?t (version opt) d3)))" if d2: "reg_table d2 = reg_table d" for d2
          proof (rule and_then_ge_fun [where g = "when_nonempty (afterCreateNoTxn opt) (runBatchNoTxn drv)"])
            show "reg_table (fst (when_nonempty (afterCreateNoTxn opt) (runBatchNoTxn drv) s)) = reg_table s" for s
              by (rule when_nonempty_notxn_keeps [OF assms(1) p(3)])
            show "reg_table d2 = reg_table d" by (rule d2)
            show "recorded ?t d \<le> recorded ?t (fst (setTableVersion drv ?t (version opt) d3))"
              if "reg_table d3 = reg_table d" for d3
              using that le by (rule set_after_keeps_ge)
          qed
        qed
      qed
      with True False show ?thesis by (simp add: upgrade_def Let_def)
    qed
  qed
qed

lemma bootstrap_ge:
  assumes "raw_keeps_registry drv" and "plan_keeps_registry drv ctx opt"
      and "recorded t d \<le> version opt"
  shows "recorded t d \<le> recorded t (fst (
           and_then (when_nonempty (beforeCreateNoTxn opt) (runBatchNoTxn drv) d) (\<lambda>d1.
           and_then (createTable drv ctx d1) (\<lambda>d2.
           and_then (when_nonempty (afterCreateTxn opt) (runBatchTxn drv) d2) (\<lambda>d3.
           and_then (when_nonempty (afterCreateNoTxn opt) (runBatchNoTxn drv) d3) (\<lambda>d4.
           setTableVersion drv t (version opt) d4))))))"
proof -
  note p = plan_keeps_parts [OF assms(2)]
  show ?thesis
  proof (rule and_then_ge_fun [where g = "when_nonempty (beforeCreateNoTxn opt) (runBatchNoTxn drv)"])
    show "reg_table (fst (when_nonempty (beforeCreateNoTxn opt) (runBatchNoTxn drv) s)) = reg_table s" for s
      by (rule when_nonempty_notxn_keeps [OF assms(1) p(1)])
    show "reg_table d = reg_table d" by simp
    show "recorded t d \<le> recorded t (fst (
           and_then (createTable drv ctx d1) (\<lambda>d2.
           and_then (when_nonempty (afterCreateTxn opt) (runBatchTxn drv) d2) (\<lambda>d3.
           and_then (when_nonempty (afterCreateNoTxn opt) (runBatchNoTxn drv) d3) (\<lambda>d4.
           setTableVersion drv t (version opt) d4)))))" if d1: "reg_table d1 = reg_table d" for d1
    proof (rule and_then_ge_fun [where g = "createTable drv ctx"])
      show "reg_table (fst (createTable drv ctx s)) = reg_table s" for s
        by (rule createTable_keeps)
      show "reg_table d1 = reg_table d" by (rule d1)
      show "recorded t d \<le> recorded t (fst (
           and_then (when_nonempty (afterCreateTxn opt) (runBatchTxn drv) d2) (\<lambda>d3.
           and_then (when_nonempty (afterCreateNoTxn opt) (runBatchNoTxn drv) d3) (\<lambda>d4.
           setTableVersion drv t (version opt) d4))))" if d2: "reg_table d2 = reg_table d" for d2
      proof (rule and_then_ge_fun [where g = "when_nonempty (afterCreateTxn opt) (runBatchTxn drv)"])
        show "reg_table (fst (when_nonempty (afterCreateTxn opt) (runBatchTxn drv) s)) = reg_table s" for s
          by (rule when_nonempty_txn_keeps [OF assms(1) p(2)])
        show "reg_table d2 = reg_table d" by (rule d2)
        show "recorded t d \<le> recorded t (fst (
             and_then (when_nonempty (afterCreateNoTxn opt) (runBatchNoTxn drv) d3) (\<lambda>d4.
             setTableVersion drv t (version opt) d4)))" if d3: "reg_table d3 = reg_table d" for d3
        proof (rule and_then_ge_fun [where g = "when_nonempty (afterCreateNoTxn opt) (runBatchNoTxn drv)"])
          show "reg_table (fst (when_nonempty (afterCreateNoTxn opt) (runBatchNoTxn drv) s)) = reg_table s" for s
            by (rule when_nonempty_notxn_keeps [OF assms(1) p(3)])
          show "reg_table d3 = reg_table d" by (rule d3)
          show "recorded t d \<le> recorded t (fst (setTableVersion drv t (version opt) d4))"
            if "reg_table d4 = reg_table d" for d4
            using that assms(3) by (rule set_after_keeps_ge)
        qed
      qed
    qed
  qed
qed

lemma legacy_ge:
  assumes "raw_keeps_registry drv" and "plan_keeps_registry drv ctx opt"
      and "ddlOption ctx = Some opt"
      and "recorded (tableName ctx) d \<le> 0" and "0 \<le> version opt"
  shows "recorded (tableName ctx) d \<le> recorded (tableName ctx) (fst (
           and_then (if c then rebuildPreserveData drv ctx d else (d, None)) (\<lambda>d1.
           and_then (when_nonempty (afterCreateTxn opt) (runBatchTxn drv) d1) (\<lambda>d2.
           if afterCreateNoTxn opt \<noteq> [] then
             and_then (runBatchNoTxn drv (afterCreateNoTxn opt) d2)
               (setTableVersion drv (tableName ctx) (version opt))
           else upgrade drv ctx opt 0 d2))))"
proof -
  let ?t = "tableName ctx"
  note p = plan_keeps_parts [OF assms(2)]
  have le: "recorded ?t d \<le> version opt" using assms(4,5) by simp
  show ?thesis
  proof (rule and_then_ge_fun [where g = "\<lambda>s. if c then rebuildPreserveData drv ctx s else (s, None)"])
    show "reg_table (fst (if c then rebuildPreserveData drv ctx s else (s, None))) = reg_table s" for s
      by (simp add: rebuild_keeps)
    show "reg_table d = reg_table d" by simp
    show "recorded ?t d \<le> recorded ?t (fst (
           and_then (when_nonempty (afterCreateTxn opt) (runBatchTxn drv) d1) (\<lambda>d2.
           if afterCreateNoTxn opt \<noteq> [] then
             and_then (runBatchNoTxn drv (afterCreateNoTxn opt) d2)
               (setTableVersion drv ?t (version opt))
           else upgrade drv ctx opt 0 d2)))" if d1: "reg_table d1 = reg_table d" for d1
    proof (rule and_then_ge_fun [where g = "when_nonempty (afterCreateTxn opt) (runBatchTxn drv)"])
      show "reg_table (fst (when_nonempty (afterCreateTxn opt) (runBatchTxn drv) s)) = reg_table s" for s
        by (rule when_nonempty_txn_keeps [OF assms(1) p(2)])
      show "reg_table d1 = reg_table d" by (rule d1)
      show "recorded ?t d \<le> recorded ?t (fst (
           if afterCreateNoTxn opt \<noteq> [] then
             and_then (runBatchNoTxn drv (afterCreateNoTxn opt) d2)
               (setTableVersion drv ?t (version opt))
           else upgrade drv ctx opt 0 d2))" if d2: "reg_table d2 = reg_table d" for d2
      proof (cases "afterCreateNoTxn opt \<noteq> []")
        case False
        with upgrade_ge [OF assms(1,2,3) d2 assms(4)] show ?thesis by simp
      next
        case True
        have "recorded ?t d \<le> recorded ?t (fst (
             and_then (runBatchNoTxn drv (afterCreateNoTxn opt) d2)
               (setTableVersion drv ?t (version opt))))"
        proof (rule and_then_ge_fun [where g = "runBatchNoTxn drv (afterCreateNoTxn opt)"])
          show "reg_table (fst (runBatchNoTxn drv (afterCreateNoTxn opt) s)) = reg_table s" for s
            by (rule runBatchNoTxn_keeps [OF assms(1) p(3)])
          show "reg_table d2 = reg_table d" by (rule d2)
          show "recorded ?t d \<le> recorded ?t (fst (setTableVersion drv ?t (version opt) d3))"
            if "reg_table d3 = reg_table d" for d3
            using that le by (rule set_after_keeps_ge)
        qed
        with True show ?thesis by simp
      qed
    qed
  qed
qed

text \<open>
  C6. Provided the target version of the plan is not negative and the caller's own
  statements and procedures do not write the registry, the version the registry reports
  for the table after a reconciliation pass, completed or failed, is at least the version
  it reported before; the same holds of the migration runner started at a version that is at
  least the reported one.
\<close>

theorem recorded_version_monotone:
  assumes "raw_keeps_registry drv"
      and "case ddlOption ctx of None \<Rightarrow> True
           | Some opt \<Rightarrow> plan_keeps_registry drv ctx opt \<and> 0 \<le> version opt"
  shows "recorded (tableName ctx) d \<le> recorded (tableName ctx) (fst (reconcileSchema drv ctx d))
       \<and> (recorded (tableName ctx) d \<le> cur \<longrightarrow>
            recorded (tableName ctx) d
              \<le> recorded (tableName ctx) (fst (migrateWithSteps drv ctx cur target d)))"
proof (cases "ddlOption ctx")
  case None
  have "reg_table (fst (reconcileSchema drv ctx d)) = reg_table d"
    using None by (simp add: reconcileSchema_def createTable_keeps)
  from recorded_cong [OF this] None show ?thesis by (simp add: migrateWithSteps_def)
next
  case (Some opt)
  let ?t = "tableName ctx"
  from assms(2) Some have pk: "plan_keeps_registry drv ctx opt" and nn: "0 \<le> version opt"
    by simp_all
  have runner: "recorded ?t d \<le> recorded ?t (fst (migrateWithSteps drv ctx cur target d))"
    if "recorded ?t d \<le> cur"
    using migrateLoop_ge [OF assms(1) plan_keeps_parts(4) [OF pk] that, of target] Some
    by (simp add: migrateWithSteps_def)
  have rec: "recorded ?t d \<le> recorded ?t (fst (reconcileSchema drv ctx d))"
  proof (cases "getTableVersion ?t d")
    case (Inl e)
    with Some show ?thesis by (simp add: reconcileSchema_def)
  next
    case (Inr current)
    then have cur: "recorded ?t d = current" by (simp add: recorded_def)
    show ?thesis
    proof (cases "current = 0")
      case False
      from cur have "recorded ?t d \<le> current" by simp
      from upgrade_ge [OF assms(1) pk Some refl this] False Some Inr show ?thesis
        by (simp add: reconcileSchema_def)
    next
      case True
      with cur nn have le0: "recorded ?t d \<le> 0" and le: "recorded ?t d \<le> version opt" by simp_all
      show ?thesis
      proof (cases "length (getExistingColumns ?t d) > 0")
        case False
        with bootstrap_ge [OF assms(1) pk le] Some Inr True show ?thesis
          by (simp add: reconcileSchema_def)
      next
        case legacy: True
        with legacy_ge [OF assms(1) pk Some le0 nn,
               of "\<not> sameLayout ctx (getExistingColumns ?t d)"] Some Inr True
        show ?thesis by (simp add: reconcileSchema_def)
      qed
    qed
  qed
  from rec runner show ?thesis by simp
qed

lemma reconcile_db_v1:
  "recorded ''t'' (fst (reconcileSchema drv0 ctx_t3 db_v1)) = 3"
  by code_simp

theorem recorded_version_monotone_witness:
  "raw_keeps_registry drv0
   \<and> ddlOption ctx_t3 = Some plan3
   \<and> plan_keeps_registry drv0 ctx_t3 plan3
   \<and> 0 \<le> version plan3
   \<and> recorded (tableName ctx_t3) db_v1 = 1
   \<and> recorded (tableName ctx_t3) (fst (reconcileSchema drv0 ctx_t3 db_v1)) = 3
   \<and> recorded (tableName ctx_t3) db_v1
        \<le> recorded (tableName ctx_t3) (fst (reconcileSchema drv0 ctx_t3 db_v1))
   \<and> recorded (tableName ctx_t3) db_v1
        \<le> recorded (tableName ctx_t3) (fst (migrateWithSteps drv0 ctx_t3 1 3 db_v1))"
proof -
  have p: "plan_keeps_registry drv0 ctx_t3 plan3"
    by (simp add: plan_keeps_registry_def plan3_def step_keeps_registry_def step_to_def)
  have o: "ddlOption ctx_t3 = Some plan3" "0 \<le> version plan3"
    by (simp_all add: ctx_t3_def plan3_def)
  have h: "case ddlOption ctx_t3 of None \<Rightarrow> True
           | Some opt \<Rightarrow> plan_keeps_registry drv0 ctx_t3 opt \<and> 0 \<le> version opt"
    using p o by simp
  have n: "tableName ctx_t3 = ''t''" by (simp add: ctx_t3_def)
  have r: "recorded ''t'' db_v1 = 1"
    by (simp add: recorded_def getTableVersion_def db_v1_def)
  note t = recorded_version_monotone [OF drv0_keeps h, of db_v1 1 3]
  from t have a: "recorded (tableName ctx_t3) db_v1
        \<le> recorded (tableName ctx_t3) (fst (reconcileSchema drv0 ctx_t3 db_v1))"
    by (rule conjunct1)
  from t r n have b: "recorded (tableName ctx_t3) db_v1
        \<le> recorded (tableName ctx_t3) (fst (migrateWithSteps drv0 ctx_t3 1 3 db_v1))"
    by simp
  from a b drv0_keeps p o r reconcile_db_v1 n show ?thesis by simp
qed

subsection \<open>Rebuilding a table\<close>

lemma copyCols_no_row_id: "SQLITE_RESERVED_PRIMARY_KEY \<notin> set (copyCols ctx d)"
  by (simp add: copyCols_def Let_def)

lemma fold_max_fresh: "fold max (map rowid_of (fresh_ids n)) 0 = int n"
  by (induction n) (simp_all add: fresh_ids_def)

lemma insert_row_shape:
  assumes "insert_row drv t asg = Inr t'"
  shows "tcols t' = tcols t \<and> trows t' = trows t @ [new_row t asg]"
  using assms by (auto simp: insert_row_def Let_def split: list.splits option.splits)

lemma new_row_id:
  assumes "tcols t = row_id_col # cs" and "SQLITE_RESERVED_PRIMARY_KEY \<notin> set (map fst asg)"
      and "row_ids t = fresh_ids (length (trows t))"
  shows "col_value (new_row t asg) SQLITE_RESERVED_PRIMARY_KEY = SInt (int (length (trows t)) + 1)"
proof -
  from assms(2) have none: "map_of asg SQLITE_RESERVED_PRIMARY_KEY = None"
    by (simp add: map_of_eq_None_iff)
  have "map (\<lambda>r. rowid_of (col_value r SQLITE_RESERVED_PRIMARY_KEY)) (trows t)
          = map rowid_of (row_ids t)"
    by (simp add: row_ids_def)
  then have "next_rowid t SQLITE_RESERVED_PRIMARY_KEY = int (length (trows t)) + 1"
    using assms(3) fold_max_fresh [of "length (trows t)"]
    by (simp add: next_rowid_def)
  with none assms(1) show ?thesis
    by (simp add: new_row_def col_value_def new_value_def row_id_col_def)
qed

lemma fresh_ids_Suc: "fresh_ids (Suc n) = fresh_ids n @ [SInt (int n + 1)]"
  by (simp add: fresh_ids_def)

lemma insert_rows_ids:
  assumes "insert_rows drv t asgs = Inr t'"
      and "tcols t = row_id_col # cs"
      and "\<forall>asg \<in> set asgs. SQLITE_RESERVED_PRIMARY_KEY \<notin> set (map fst asg)"
      and "row_ids t = fresh_ids (length (trows t))"
  shows "row_ids t' = fresh_ids (length (trows t')) \<and> length (trows t') = length (trows t) + length asgs"
  using assms
proof (induction asgs arbitrary: t)
  case Nil
  then show ?case by simp
next
  case (Cons asg asgs)
  from Cons.prems(1) obtain t1 where one: "insert_row drv t asg = Inr t1"
    and rest: "insert_rows drv t1 asgs = Inr t'"
    by (auto split: sum.splits)
  note sh = insert_row_shape [OF one]
  from Cons.prems(3) have k: "SQLITE_RESERVED_PRIMARY_KEY \<notin> set (map fst asg)" by simp
  have ids1: "row_ids t1 = fresh_ids (length (trows t1))"
    using sh new_row_id [OF Cons.prems(2) k Cons.prems(4)] Cons.prems(4)
    by (simp add: row_ids_def fresh_ids_Suc)
  from sh Cons.prems(2) have c1: "tcols t1 = row_id_col # cs" by simp
  from Cons.prems(3) have r: "\<forall>asg \<in> set asgs. SQLITE_RESERVED_PRIMARY_KEY \<notin> set (map fst asg)" by simp
  from Cons.IH [OF rest c1 r ids1] sh show ?case by simp
qed

lemma map_of_delete: "map_of (AList.delete k xs) k' = (if k' = k then None else map_of xs k')"
  by (simp add: delete_conv')

lemma map_of_update: "map_of (AList.update k v xs) k' = (if k' = k then Some v else map_of xs k')"
  by (simp add: update_conv')

lemma swap_tables:
  assumes "exec_all drv [DropTable n, RenameTable tmp n, PragmaForeignKeys True] d1 = Inr d'"
      and "tmp \<noteq> n" and "map_of (tables d1) tmp = Some t'"
  shows "map_of (tables d1) n \<noteq> None \<and> map_of (tables d') n = Some t'"
  using assms
  by (auto simp: map_add_def map_of_delete split: option.splits sum.splits if_splits)

lemma create_tmp:
  assumes "exec_stmt drv (CreateTable False tmp defs) d = Inr d1" and "tmp \<noteq> n"
  shows "map_of (tables d1) tmp = Some \<lparr>tcols = defs, trows = []\<rparr>
       \<and> map_of (tables d1) n = map_of (tables d) n"
  using assms
  by (auto simp: map_add_def split: option.splits sum.splits if_splits)

lemma insert_select_tmp:
  assumes "exec_stmt drv (InsertSelect tmp cc n) d1 = Inr d2" and "tmp \<noteq> n"
      and "map_of (tables d1) tmp = Some t0" and "map_of (tables d1) n = Some old"
  shows "\<exists>t'. insert_rows drv t0 (map (\<lambda>r. map (\<lambda>c. (c, col_value r c)) cc) (trows old)) = Inr t'
            \<and> map_of (tables d2) tmp = Some t' \<and> map_of (tables d2) n = Some old"
  using assms
  by (auto simp: map_of_update split: option.splits sum.splits if_splits list.splits)

lemma exec_all_append:
  "exec_all drv (xs @ ys) d =
     (case exec_all drv xs d of Inl e \<Rightarrow> Inl e | Inr d1 \<Rightarrow> exec_all drv ys d1)"
  by (induction xs arbitrary: d) (auto split: sum.splits)

lemma exec_all_Inr_append:
  "exec_all drv (xs @ ys) d = Inr d' \<Longrightarrow>
   \<exists>d1. exec_all drv xs d = Inr d1 \<and> exec_all drv ys d1 = Inr d'"
  by (simp add: exec_all_append split: sum.splits)

lemma exec_all_Inr_cons:
  "exec_all drv (s # ss) d = Inr d' \<Longrightarrow>
   \<exists>d1. exec_stmt drv s d = Inr d1 \<and> exec_all drv ss d1 = Inr d'"
  by (simp split: sum.splits)

lemma transaction_None: "transaction drv ss d = (d', None) \<Longrightarrow> exec_all drv ss d = Inr d'"
  by (simp add: transaction_def split: sum.splits)

lemma insert_select_source:
  "exec_stmt drv (InsertSelect tmp cc n) d1 = Inr d2 \<Longrightarrow> \<exists>old. map_of (tables d1) n = Some old"
  by (auto split: option.splits)

lemma create_distinct:
  assumes "exec_stmt drv (CreateTable False tmp defs) d = Inr d1"
  shows "distinct (map pname defs)"
proof -
  from assms have "distinct (map toLowerCase (map pname defs))"
    by (auto simp: comp_def split: option.splits if_splits)
  with distinct_map [of toLowerCase "map pname defs"] show ?thesis by blast
qed

lemma rebuild_success:
  assumes "rebuildPreserveData drv ctx d = (d', None)"
  shows "\<exists>cs old t'. colDefs (columns ctx) = Inr cs
          \<and> distinct (map pname (row_id_col # cs))
          \<and> map_of (tables d) (tableName ctx) = Some old
          \<and> insert_rows drv \<lparr>tcols = row_id_col # cs, trows = []\<rparr>
               (if copyCols ctx d = [] then []
                else map (\<lambda>r. map (\<lambda>c. (c, col_value r c)) (copyCols ctx d)) (trows old)) = Inr t'
          \<and> map_of (tables d') (tableName ctx) = Some t'"
proof -
  let ?n = "tableName ctx"
  let ?tmp = "?n @ ''__new_'' @ random_suffix drv d"
  let ?cc = "copyCols ctx d"
  have ne: "?tmp \<noteq> ?n" by simp
  from assms obtain cs where cs: "colDefs (columns ctx) = Inr cs"
    by (cases "colDefs (columns ctx)") (auto simp: rebuildPreserveData_def Let_def)
  let ?defs = "row_id_col # cs"
  let ?t0 = "\<lparr>tcols = ?defs, trows = []\<rparr>"
  let ?ins = "if ?cc \<noteq> [] then [InsertSelect ?tmp ?cc ?n] else []"
  let ?swap = "[DropTable ?n, RenameTable ?tmp ?n, PragmaForeignKeys True]"
  have "rebuildPreserveData drv ctx d =
          transaction drv (PragmaForeignKeys False # CreateTable False ?tmp ?defs # (?ins @ ?swap)) d"
    unfolding rebuildPreserveData_def Let_def cs by simp
  with assms have "exec_all drv (PragmaForeignKeys False # CreateTable False ?tmp ?defs # (?ins @ ?swap)) d = Inr d'"
    by (intro transaction_None) simp
  from exec_all_Inr_cons [OF this] obtain d0 where "exec_stmt drv (PragmaForeignKeys False) d = Inr d0"
    and r0: "exec_all drv (CreateTable False ?tmp ?defs # (?ins @ ?swap)) d0 = Inr d'" by blast
  then have d0: "d0 = d" by simp
  from exec_all_Inr_cons [OF r0] d0 obtain d1 where create: "exec_stmt drv (CreateTable False ?tmp ?defs) d = Inr d1"
    and r1: "exec_all drv (?ins @ ?swap) d1 = Inr d'" by blast
  from exec_all_Inr_append [OF r1] obtain d2 where ins: "exec_all drv ?ins d1 = Inr d2"
    and swap: "exec_all drv ?swap d2 = Inr d'" by blast
  note c = create_tmp [OF create ne]
  note dn = create_distinct [OF create]
  show ?thesis
  proof (cases "?cc = []")
    case True
    with ins have "d2 = d1" by simp
    with swap_tables [OF swap ne, of ?t0] c
    have "map_of (tables d) ?n \<noteq> None" "map_of (tables d') ?n = Some ?t0" by simp_all
    with cs dn True show ?thesis by auto
  next
    case False
    with ins have "exec_all drv [InsertSelect ?tmp ?cc ?n] d1 = Inr d2" by simp
    from exec_all_Inr_cons [OF this] have sel: "exec_stmt drv (InsertSelect ?tmp ?cc ?n) d1 = Inr d2"
      by auto
    from insert_select_source [OF sel] obtain old where old: "map_of (tables d1) ?n = Some old"
      by blast
    from insert_select_tmp [OF sel ne conjunct1 [OF c] old]
    obtain t' where t': "insert_rows drv ?t0 (map (\<lambda>r. map (\<lambda>c. (c, col_value r c)) ?cc) (trows old)) = Inr t'"
      and tmp: "map_of (tables d2) ?tmp = Some t'" by blast
    from swap_tables [OF swap ne tmp] have "map_of (tables d') ?n = Some t'" by simp
    with cs dn old c t' False show ?thesis by auto
  qed
qed

text \<open>
  C9. The column list of the insert-select never holds the reserved column \<^verbatim>\<open>row_id\<close>. After a
  successful rebuild the rows of the table carry the identities \<open>1, 2, \<dots>\<close> in their order,
  assigned by the new table, whatever their identities were before.
\<close>

theorem rebuild_fresh_row_ids:
  "SQLITE_RESERVED_PRIMARY_KEY \<notin> set (copyCols ctx d)
   \<and> (rebuildPreserveData drv ctx d = (d', None) \<longrightarrow>
        (\<exists>t'. map_of (tables d') (tableName ctx) = Some t'
           \<and> row_ids t' = fresh_ids (length (trows t'))))"
proof (intro conjI impI)
  show "SQLITE_RESERVED_PRIMARY_KEY \<notin> set (copyCols ctx d)" by (rule copyCols_no_row_id)
next
  assume "rebuildPreserveData drv ctx d = (d', None)"
  from rebuild_success [OF this] obtain cs old t' where
    ins: "insert_rows drv \<lparr>tcols = row_id_col # cs, trows = []\<rparr>
               (if copyCols ctx d = [] then []
                else map (\<lambda>r. map (\<lambda>c. (c, col_value r c)) (copyCols ctx d)) (trows (old::table))) = Inr t'"
    and t': "map_of (tables d') (tableName ctx) = Some t'"
    by blast
  have keys: "\<forall>asg \<in> set (if copyCols ctx d = [] then []
                else map (\<lambda>r. map (\<lambda>c. (c, col_value r c)) (copyCols ctx d)) (trows old)).
              SQLITE_RESERVED_PRIMARY_KEY \<notin> set (map fst asg)"
  proof (cases "copyCols ctx d = []")
    case True
    then show ?thesis by simp
  next
    case False
    with copyCols_no_row_id [of ctx d] show ?thesis by (auto simp: image_iff)
  qed
  have "row_ids t' = fresh_ids (length (trows t'))"
    using insert_rows_ids [OF ins _ keys, of cs]
    by (simp add: row_ids_def fresh_ids_def)
  with t' show "\<exists>t'. map_of (tables d') (tableName ctx) = Some t'
           \<and> row_ids t' = fresh_ids (length (trows t'))" by blast
qed

theorem rebuild_fresh_row_ids_witness:
  "rebuildPreserveData drv0 ctx_t3 db_v1 = (db_v1_rebuilt, None)
   \<and> map_of (tables db_v1) ''t''
        = Some \<lparr>tcols = [row_id_col, plain_col ''a''],
                 trows = [[(''row_id'', SInt 4), (''a'', SText (js ''x''))]]\<rparr>
   \<and> (\<exists>t'. map_of (tables db_v1_rebuilt) (tableName ctx_t3) = Some t'
           \<and> row_ids t' = fresh_ids (length (trows t')))"
proof -
  from rebuild_fresh_row_ids [of ctx_t3 db_v1 drv0 db_v1_rebuilt] rebuild_db_v1
  have "\<exists>t'. map_of (tables db_v1_rebuilt) (tableName ctx_t3) = Some t'
           \<and> row_ids t' = fresh_ids (length (trows t'))" by blast
  with rebuild_db_v1 show ?thesis by (simp add: db_v1_def)
qed

subsection \<open>Two evaluations\<close>

text \<open>
  C2, at a table whose column \<^verbatim>\<open>Name\<close> is declared as \<^verbatim>\<open>name\<close>. The two names are equal up to
  case, as \<^verbatim>\<open>reconcileSchema\<close> compares them, yet the rebuild copies only \<^verbatim>\<open>age\<close>: the row
  survives with NULL in \<^verbatim>\<open>name\<close>, and the value \<^verbatim>\<open>ann\<close> is gone.
\<close>

theorem rebuild_drops_case_variant:
  "toLowerCase ''Name'' = toLowerCase ''name''
   \<and> getExistingColumns ''people'' db_people = [''row_id'', ''Name'', ''age'']
   \<and> copyCols ctx_people db_people = [''age'']
   \<and> rebuildPreserveData drv0 ctx_people db_people = (db_people_rebuilt, None)
   \<and> map_of (tables db_people_rebuilt) ''people''
        = Some \<lparr>tcols = [row_id_col, plain_col ''name'', plain_col ''age''],
                 trows = [[(''row_id'', SInt 1), (''name'', SNull), (''age'', SText (js ''41''))]]\<rparr>"
proof -
  have "toLowerCase ''Name'' = toLowerCase ''name''" by code_simp
  moreover have "getExistingColumns ''people'' db_people = [''row_id'', ''Name'', ''age'']"
    by code_simp
  moreover have "copyCols ctx_people db_people = [''age'']" by code_simp
  moreover have "rebuildPreserveData drv0 ctx_people db_people = (db_people_rebuilt, None)"
    by code_simp
  moreover have "map_of (tables db_people_rebuilt) ''people''
        = Some \<lparr>tcols = [row_id_col, plain_col ''name'', plain_col ''age''],
                 trows = [[(''row_id'', SInt 1), (''name'', SNull), (''age'', SText (js ''41''))]]\<rparr>"
    by (simp add: db_people_rebuilt_def)
  ultimately show ?thesis by blast
qed

text \<open>
  C3, at a plan whose after-create-in-transaction batch fails. The table is created in a
  transaction of its own: when the batch that follows is rolled back, the table stays, and
  no version is written.
\<close>

theorem bootstrap_create_not_rolled_back:
  "getTableVersion ''t'' db_ready = Inr 0
   \<and> getExistingColumns ''t'' db_ready = []
   \<and> reconcileSchema drv0 ctx_boot db_ready = (db_boot_failed, Some (StatementFailed ''FAIL''))
   \<and> getExistingColumns ''t'' db_boot_failed = [''row_id'', ''a'']
   \<and> getTableVersion ''t'' db_boot_failed = Inr 0"
proof -
  have "getTableVersion ''t'' db_ready = Inr 0" by code_simp
  moreover have "getExistingColumns ''t'' db_ready = []" by code_simp
  moreover have "reconcileSchema drv0 ctx_boot db_ready = (db_boot_failed, Some (StatementFailed ''FAIL''))"
    by code_simp
  moreover have "getExistingColumns ''t'' db_boot_failed = [''row_id'', ''a'']" by code_simp
  moreover have "getTableVersion ''t'' db_boot_failed = Inr 0" by code_simp
  ultimately show ?thesis by blast
qed

subsection \<open>The registry's own table\<close>

text \<open>
  C8. \<^verbatim>\<open>ensureMeta\<close> never fails and changes nothing but what is missing: the tables are kept,
  the rows of an existing registry table are kept (so every recorded version is), an absent
  registry table is created empty, and the index is added at the end exactly when no index
  has its name. In a store that has both, it returns the store as it is. Hence \<open>n \<ge> 1\<close> calls
  in a row leave the store that one call leaves, a call after the first changes nothing, and
  in a store whose index names are not duplicated exactly one index has the name
  \<^verbatim>\<open>__sp_schema_ver_idx\<close>.
\<close>

theorem ensureMeta_idempotent:
  assumes "count_list (indexes d) REG_INDEX_NAME \<le> 1" and "0 < n"
  shows "ensureMeta drv d =
           (d\<lparr>reg_table := Some (case reg_table d of None \<Rightarrow> [] | Some rs \<Rightarrow> rs),
              indexes := (if REG_INDEX_NAME \<in> set (indexes d) then indexes d
                          else indexes d @ [REG_INDEX_NAME])\<rparr>, None)
       \<and> (reg_table d \<noteq> None \<and> REG_INDEX_NAME \<in> set (indexes d) \<longrightarrow> ensureMeta drv d = (d, None))
       \<and> tables (fst (ensureMeta drv d)) = tables d
       \<and> (reg_table d \<noteq> None \<longrightarrow>
            reg_table (fst (ensureMeta drv d)) = reg_table d
            \<and> (\<forall>t. getTableVersion t (fst (ensureMeta drv d)) = getTableVersion t d))
       \<and> ((\<lambda>s. fst (ensureMeta drv s)) ^^ n) d = fst (ensureMeta drv d)
       \<and> snd (ensureMeta drv d) = None
       \<and> ensureMeta drv (fst (ensureMeta drv d)) = (fst (ensureMeta drv d), None)
       \<and> reg_table (fst (ensureMeta drv d)) \<noteq> None
       \<and> count_list (indexes (fst (ensureMeta drv d))) REG_INDEX_NAME = 1"
proof -
  have c: "count_list (indexes (fst (ensureMeta drv d))) REG_INDEX_NAME = 1"
  proof (cases "REG_INDEX_NAME \<in> set (indexes d)")
    case True
    then have "0 < count_list (indexes d) REG_INDEX_NAME" by (rule count_list_pos)
    with assms(1) True show ?thesis by (simp add: ensureMeta_eq)
  next
    case False
    then show ?thesis by (simp add: ensureMeta_eq count_list_append1 count_list_0)
  qed
  have same: "ensureMeta drv d = (d, None)" if "reg_table d \<noteq> None" "REG_INDEX_NAME \<in> set (indexes d)"
    using that by (auto simp: ensureMeta_eq)
  have reg: "reg_table (fst (ensureMeta drv d)) = reg_table d" if "reg_table d \<noteq> None"
    using that by (auto simp: ensureMeta_eq)
  have ver: "getTableVersion t (fst (ensureMeta drv d)) = getTableVersion t d"
    if "reg_table d \<noteq> None" for t
    using reg [OF that] by (rule getTableVersion_cong)
  have tabs: "tables (fst (ensureMeta drv d)) = tables d" by (simp add: ensureMeta_eq)
  have none: "snd (ensureMeta drv d) = None" and some: "reg_table (fst (ensureMeta drv d)) \<noteq> None"
    by (simp_all add: ensureMeta_eq)
  show ?thesis
    by (intro conjI impI allI ensureMeta_eq ensureMeta_funpow [OF assms(2)] ensureMeta_twice c
          tabs none some)
       (simp_all add: same reg ver)
qed

lemma ensureMeta_db_v1: "ensureMeta drv0 db_v1 = (db_v1, None)"
  by (simp add: ensureMeta_eq db_v1_def)

theorem ensureMeta_idempotent_witness:
  "count_list (indexes db_v1) REG_INDEX_NAME \<le> 1 \<and> (0::nat) < 3
   \<and> reg_table db_v1 = Some [(''t'', 1, 0)] \<and> indexes db_v1 = [REG_INDEX_NAME]
   \<and> ensureMeta drv0 db_v1 = (db_v1, None)
   \<and> getTableVersion ''t'' (fst (ensureMeta drv0 db_v1)) = Inr 1
   \<and> ((\<lambda>s. fst (ensureMeta drv0 s)) ^^ 3) db_v1 = db_v1
   \<and> count_list (indexes fresh_db) REG_INDEX_NAME \<le> 1
   \<and> ((\<lambda>s. fst (ensureMeta drv0 s)) ^^ 3) fresh_db = fst (ensureMeta drv0 fresh_db)
   \<and> ensureMeta drv0 fresh_db = (\<lparr>tables = [], reg_table = Some [], indexes = [REG_INDEX_NAME]\<rparr>, None)"
proof -
  have h: "count_list (indexes db_v1) REG_INDEX_NAME \<le> 1" "(0::nat) < 3"
    "reg_table db_v1 = Some [(''t'', 1, 0)]" "indexes db_v1 = [REG_INDEX_NAME]"
    "count_list (indexes fresh_db) REG_INDEX_NAME \<le> 1"
    by (simp_all add: db_v1_def fresh_db_def)
  have v: "getTableVersion ''t'' db_v1 = Inr 1" by (simp add: getTableVersion_def db_v1_def)
  note a = ensureMeta_idempotent [OF h(1,2), of drv0]
  note b = ensureMeta_idempotent [OF h(5,2), of drv0]
  from a h(3,4) have a1: "ensureMeta drv0 db_v1 = (db_v1, None)" by simp
  from a have a2: "((\<lambda>s. fst (ensureMeta drv0 s)) ^^ 3) db_v1 = fst (ensureMeta drv0 db_v1)" by simp
  from b have b1: "((\<lambda>s. fst (ensureMeta drv0 s)) ^^ 3) fresh_db = fst (ensureMeta drv0 fresh_db)" by simp
  from b have b2: "ensureMeta drv0 fresh_db
      = (\<lparr>tables = [], reg_table = Some [], indexes = [REG_INDEX_NAME]\<rparr>, None)"
    by (simp add: fresh_db_def)
  from h v a1 a2 b1 b2 show ?thesis by simp
qed

subsection \<open>What a rebuild keeps\<close>










subsection \<open>The migration runner at a version without a declared step\<close>



subsection \<open>A failing migration step and the next open\<close>





subsection \<open>Inserting a blank text\<close>








lemma create_three: "createTable drv0 ctx_three db_ready = (db_three, None)"
  by code_simp

lemma create_strict: "createTable drv0 ctx_strict db_ready = (db_strict, None)"
  by code_simp












end
